theory Spec2Isabelle
  imports Complex_Main
begin

section \<open>Strings, characters and the few library functions the code relies on\<close>

text \<open>
  A Python \<open>str\<close> is a sequence of Unicode code points, so a text is a list of
  code points (\<open>nat\<close>); \<open>len\<close> is \<open>length\<close>.
\<close>

type_synonym ustr = "nat list"

definition str :: "string \<Rightarrow> ustr" where
  "str s = map of_char s"

abbreviation LBRACE :: nat where "LBRACE \<equiv> 123"
abbreviation RBRACE :: nat where "RBRACE \<equiv> 125"
abbreviation LBRACKET :: nat where "LBRACKET \<equiv> 91"
abbreviation RBRACKET :: nat where "RBRACKET \<equiv> 93"
abbreviation DQUOTE :: nat where "DQUOTE \<equiv> 34"
abbreviation SQUOTE :: nat where "SQUOTE \<equiv> 39"
abbreviation BACKSLASH :: nat where "BACKSLASH \<equiv> 92"
abbreviation COLON :: nat where "COLON \<equiv> 58"
abbreviation COMMA :: nat where "COMMA \<equiv> 44"
abbreviation NEWLINE :: nat where "NEWLINE \<equiv> 10"
abbreviation BACKTICK :: nat where "BACKTICK \<equiv> 96"
abbreviation UNDERSCORE :: nat where "UNDERSCORE \<equiv> 95"

text \<open>
  \<open>str.isspace\<close> on one code point, which is also what \<open>\s\<close> matches in a
  \<open>str\<close> pattern of \<open>re\<close>: the code points CPython lists as whitespace.
\<close>

definition isspace :: "nat \<Rightarrow> bool" where
  "isspace c \<longleftrightarrow>
     (9 \<le> c \<and> c \<le> 13) \<or> (28 \<le> c \<and> c \<le> 32) \<or> c = 133 \<or> c = 160 \<or> c = 5760 \<or>
     (8192 \<le> c \<and> c \<le> 8202) \<or> c = 8232 \<or> c = 8233 \<or> c = 8239 \<or> c = 8287 \<or> c = 12288"

definition lstrip :: "ustr \<Rightarrow> ustr" where
  "lstrip t = dropWhile isspace t"

definition rstrip :: "ustr \<Rightarrow> ustr" where
  "rstrip t = rev (dropWhile isspace (rev t))"

definition strip :: "ustr \<Rightarrow> ustr" where
  "strip t = lstrip (rstrip t)"

text \<open>\<open>text[a:b]\<close> for non-negative \<open>a\<close>, \<open>b\<close>: both ends are clamped to the text.\<close>

definition slice :: "ustr \<Rightarrow> nat \<Rightarrow> nat \<Rightarrow> ustr" where
  "slice t a b = take (b - a) (drop a t)"

section \<open>Python floats\<close>

text \<open>
  A Python \<open>float\<close> is an IEEE 754 binary64 number. A finite double is modelled by the
  real number it denotes, and every operation of the source that rounds is written out:
  a decimal literal such as \<open>0.8\<close> is \<open>to_double 0.8\<close>, and \<open>+\<close>, \<open>-\<close>, \<open>*\<close> and
  \<open>/\<close> round the exact result to the nearest double, ties to even. Comparisons,
  \<open>min\<close> and \<open>max\<close> are exact on doubles. Infinities and NaN are not modelled: no
  value computed by the code below leaves the range of the finite doubles.

  \<open>binade x\<close> is the exponent \<open>e\<close> with \<open>2 ^ e \<le> x < 2 ^ (e + 1)\<close> of a positive \<open>x\<close>.
\<close>

function binade :: "real \<Rightarrow> int" where
  "binade x =
     (if x \<le> 0 then 0
      else if 2 \<le> x then binade (x / 2) + 1
      else if x < 1 then binade (2 * x) - 1
      else 0)"
  by pat_completeness auto
termination
proof (relation "measure (\<lambda>x. nat \<bar>\<lfloor>log 2 x\<rfloor>\<bar>)")
  show "wf (measure (\<lambda>x. nat \<bar>\<lfloor>log 2 x\<rfloor>\<bar>))" by simp
next
  fix x :: real
  assume "\<not> x \<le> 0" and "2 \<le> x"
  then have l: "log 2 (x / 2) = log 2 x - 1" and p: "1 \<le> log 2 x"
    by (simp_all add: log_divide le_log_iff)
  from p have "1 \<le> \<lfloor>log 2 x\<rfloor>" by linarith
  moreover have "\<lfloor>log 2 (x / 2)\<rfloor> = \<lfloor>log 2 x\<rfloor> - 1" unfolding l by linarith
  ultimately show "(x / 2, x) \<in> measure (\<lambda>x. nat \<bar>\<lfloor>log 2 x\<rfloor>\<bar>)" by simp
next
  fix x :: real
  assume "\<not> x \<le> 0" and "\<not> 2 \<le> x" and "x < 1"
  then have l: "log 2 (2 * x) = log 2 x + 1" and p: "log 2 x < 0"
    by (simp_all add: log_mult)
  from p have "\<lfloor>log 2 x\<rfloor> \<le> - 1" by linarith
  moreover have "\<lfloor>log 2 (2 * x)\<rfloor> = \<lfloor>log 2 x\<rfloor> + 1" unfolding l by linarith
  ultimately show "(2 * x, x) \<in> measure (\<lambda>x. nat \<bar>\<lfloor>log 2 x\<rfloor>\<bar>)" by simp
qed

declare binade.simps [simp del]

text \<open>Rounding to the nearest integer, a tie going to the even one.\<close>

definition round_half_even :: "real \<Rightarrow> int" where
  "round_half_even x =
     (if x - of_int \<lfloor>x\<rfloor> < 1 / 2 then \<lfloor>x\<rfloor>
      else if x - of_int \<lfloor>x\<rfloor> > 1 / 2 then \<lfloor>x\<rfloor> + 1
      else if even \<lfloor>x\<rfloor> then \<lfloor>x\<rfloor>
      else \<lfloor>x\<rfloor> + 1)"

text \<open>
  The double nearest to a real: a significand of 53 bits at the exponent of the number,
  the exponent never below that of the subnormal numbers.
\<close>

definition to_double :: "real \<Rightarrow> real" where
  "to_double x =
     (if x = 0 then 0
      else
        (let e = max (binade \<bar>x\<bar>) (- 1022)
         in sgn x * of_int (round_half_even (\<bar>x\<bar> * 2 powi (52 - e))) * 2 powi (e - 52)))"

definition fadd :: "real \<Rightarrow> real \<Rightarrow> real" where
  "fadd a b = to_double (a + b)"

definition fsub :: "real \<Rightarrow> real \<Rightarrow> real" where
  "fsub a b = to_double (a - b)"

definition fmul :: "real \<Rightarrow> real \<Rightarrow> real" where
  "fmul a b = to_double (a * b)"

definition fdiv :: "real \<Rightarrow> real \<Rightarrow> real" where
  "fdiv a b = to_double (a / b)"

section \<open>types.py\<close>

datatype ExtractionMethod = DIRECT_PARSE | MARKDOWN_FENCE | BRACE_MATCH | HEURISTIC

datatype ErrorType =
  NO_JSON_FOUND | INVALID_JSON | TRUNCATED_JSON | AMBIGUOUS_MULTIPLE | REPAIR_FAILED

record ExtractError =
  message :: ustr
  error_type :: ErrorType
  position :: "nat option"

text \<open>
  The exceptions that can leave a function of the package: the \<open>ValueError\<close> of the
  two \<open>__post_init__\<close> checks, and an \<open>ExtractError\<close> that \<open>extract_json\<close> raises.
\<close>

datatype exn = ValueError | Raised ExtractError

record Candidate =
  raw :: ustr
  start_pos :: nat
  end_pos :: nat
  cand_method :: ExtractionMethod
  confidence :: real

text \<open>The constructor of the dataclass, with the check of \<open>__post_init__\<close>.\<close>

definition mk_Candidate ::
  "ustr \<Rightarrow> nat \<Rightarrow> nat \<Rightarrow> ExtractionMethod \<Rightarrow> real \<Rightarrow> exn + Candidate" where
  "mk_Candidate r s e m c =
     (if \<not> (0 \<le> c \<and> c \<le> 1) then Inl ValueError
      else Inr \<lparr>raw = r, start_pos = s, end_pos = e, cand_method = m, confidence = c\<rparr>)"

section \<open>extractor.py: the scanner\<close>

text \<open>
  The loop of \<open>_match_braces\<close>. The first argument is \<open>text[i:]\<close>; the stack is kept
  with its top at the head of the list (Python appends and pops at the end). The result
  is \<open>None\<close> where the loop returns \<open>None\<close> from inside, and the index and the stack at
  the loop's exit otherwise.
\<close>

fun match_loop :: "ustr \<Rightarrow> nat \<Rightarrow> nat list \<Rightarrow> bool \<Rightarrow> bool \<Rightarrow> (nat \<times> nat list) option" where
  "match_loop [] i stack in_string escape_next = Some (i, stack)"
| "match_loop (c # cs) i stack in_string escape_next =
     (if stack = [] then Some (i, stack)
      else if escape_next then match_loop cs (i + 1) stack in_string False
      else if c = BACKSLASH then match_loop cs (i + 1) stack in_string True
      else if c = DQUOTE \<and> \<not> escape_next then match_loop cs (i + 1) stack (\<not> in_string) escape_next
      else if in_string then match_loop cs (i + 1) stack in_string escape_next
      else if c = LBRACE \<or> c = LBRACKET then
        match_loop cs (i + 1) (c # stack) in_string escape_next
      else if c = RBRACE then
        (if stack \<noteq> [] \<and> hd stack = LBRACE
         then match_loop cs (i + 1) (tl stack) in_string escape_next else None)
      else if c = RBRACKET then
        (if stack \<noteq> [] \<and> hd stack = LBRACKET
         then match_loop cs (i + 1) (tl stack) in_string escape_next else None)
      else match_loop cs (i + 1) stack in_string escape_next)"

definition match_braces :: "ustr \<Rightarrow> nat \<Rightarrow> (nat \<times> nat) option" where
  "match_braces t start =
     (if start \<ge> length t \<or> \<not> (t ! start = LBRACE \<or> t ! start = LBRACKET) then None
      else
        (case match_loop (drop (start + 1) t) (start + 1) [t ! start] False False of
           None \<Rightarrow> None
         | Some (i, stack) \<Rightarrow> if stack = [] then Some (start, i - 1) else None))"

definition calculate_brace_match_confidence :: "ustr \<Rightarrow> real" where
  "calculate_brace_match_confidence r =
     (let base_confidence = to_double 0.8;
          base_confidence =
            (if DQUOTE \<in> set r then fadd base_confidence (to_double 0.05) else base_confidence);
          base_confidence =
            (if COLON \<in> set r then fadd base_confidence (to_double 0.05) else base_confidence);
          base_confidence =
            (if length r < 10 then fsub base_confidence (to_double 0.1) else base_confidence)
      in min (to_double 0.9) (max (to_double 0.5) base_confidence))"

lemma match_loop_index: "match_loop cs i st a b = Some (j, st') \<Longrightarrow> i \<le> j"
proof (induction cs arbitrary: i st a b)
  case Nil
  then show ?case by simp
next
  case (Cons c cs)
  from Cons.prems show ?case
    by (auto split: if_splits dest!: Cons.IH)
qed

lemma match_braces_bounds: "match_braces t i = Some (s, e) \<Longrightarrow> s = i \<and> i \<le> e"
  by (auto simp: match_braces_def split: if_splits option.splits prod.splits
      dest!: match_loop_index)

section \<open>extractor.py: the detection strategies\<close>

text \<open>The \<open>while\<close> loop of \<open>extract_from_brace_matching\<close>, on the index \<open>i\<close>.\<close>

function brace_loop :: "ustr \<Rightarrow> nat \<Rightarrow> Candidate list \<Rightarrow> exn + Candidate list" where
  "brace_loop t i candidates =
     (if i < length t then
        (if t ! i = LBRACE \<or> t ! i = LBRACKET then
           (case match_braces t i of
              Some (start, en) \<Rightarrow>
                (let r = slice t start (en + 1) in
                 case mk_Candidate r start (en + 1) BRACE_MATCH
                        (calculate_brace_match_confidence r) of
                   Inl x \<Rightarrow> Inl x
                 | Inr c \<Rightarrow> brace_loop t (en + 1) (candidates @ [c]))
            | None \<Rightarrow> brace_loop t (i + 1) candidates)
         else brace_loop t (i + 1) candidates)
      else Inr candidates)"
  by pat_completeness auto
termination
proof (relation "measure (\<lambda>(t, i, candidates). length t - i)")
  show "wf (measure (\<lambda>(t, i, candidates). length t - i))" by simp
next
  fix t :: ustr and i :: nat and candidates :: "Candidate list" and x2 x y r c
  assume "i < length t" and m: "match_braces t i = Some x2" and xy: "(x, y) = x2"
  from m xy have "i \<le> y" using match_braces_bounds [of t i x y] by simp
  with \<open>i < length t\<close>
  show "((t, y + 1, candidates @ [c]), (t, i, candidates))
          \<in> measure (\<lambda>(t, i, candidates). length t - i)"
    by simp
qed auto

declare brace_loop.simps [simp del]

definition extract_from_brace_matching :: "ustr \<Rightarrow> exn + Candidate list" where
  "extract_from_brace_matching t = brace_loop t 0 []"

definition looks_like_json :: "ustr \<Rightarrow> bool" where
  "looks_like_json t =
     (let stripped = strip t in
      if stripped = [] then False
      else if \<not> (hd stripped = LBRACE \<or> hd stripped = LBRACKET) then False
      else last stripped = RBRACE \<or> last stripped = RBRACE \<or> last stripped = RBRACKET)"

definition extract_direct :: "ustr \<Rightarrow> exn + Candidate list" where
  "extract_direct t =
     (let stripped = strip t in
      if stripped = [] then Inr []
      else if looks_like_json stripped then
        (case mk_Candidate stripped 0 (length t) DIRECT_PARSE 1.0 of
           Inl x \<Rightarrow> Inl x
         | Inr c \<Rightarrow> Inr [c])
      else Inr [])"

section \<open>The regular expressions of the detector\<close>

text \<open>
  Python's \<open>re\<close> matches by backtracking. A matcher gives, for a text and a start
  index, the indices at which a match can end, in the order in which the backtracking
  search reaches them; the match \<open>re\<close> reports is the first of them.
\<close>

type_synonym matcher = "ustr \<Rightarrow> nat \<Rightarrow> nat list"

definition rx_char :: "(nat \<Rightarrow> bool) \<Rightarrow> matcher" where
  "rx_char P t p = (if p < length t \<and> P (t ! p) then [p + 1] else [])"

definition rx_seq :: "matcher \<Rightarrow> matcher \<Rightarrow> matcher" where
  "rx_seq m1 m2 t p = concat (map (m2 t) (m1 t p))"

definition rx_alt :: "matcher \<Rightarrow> matcher \<Rightarrow> matcher" where
  "rx_alt m1 m2 t p = m1 t p @ m2 t p"

text \<open>\<open>(?:m)?\<close>: the greedy option tries \<open>m\<close> first, then nothing.\<close>

definition rx_opt :: "matcher \<Rightarrow> matcher" where
  "rx_opt m t p = m t p @ [p]"

text \<open>\<open>P*\<close> and \<open>P+\<close> for a character class \<open>P\<close>: greedy, the longest run first.\<close>

definition rx_star :: "(nat \<Rightarrow> bool) \<Rightarrow> matcher" where
  "rx_star P t p = rev [p ..< p + length (takeWhile P (drop p t)) + 1]"

definition rx_plus :: "(nat \<Rightarrow> bool) \<Rightarrow> matcher" where
  "rx_plus P t p = rev [p + 1 ..< p + length (takeWhile P (drop p t)) + 1]"

text \<open>\<open>[\s\S]*?\<close>: lazy, the shortest run first; every character is in the class.\<close>

definition rx_lazy_any :: matcher where
  "rx_lazy_any t p = [p ..< length t + 1]"

fun rx_lit :: "ustr \<Rightarrow> matcher" where
  "rx_lit [] t p = [p]"
| "rx_lit (a # as) t p = (if p < length t \<and> t ! p = a then rx_lit as t (p + 1) else [])"

text \<open>
  A character \<open>a\<close> of a pattern compiled with \<open>re.IGNORECASE\<close> (here a lower-case
  ASCII letter, a space or an apostrophe) against a character \<open>c\<close> of the text: the
  letter itself, its upper-case form, and the non-ASCII letters that \<open>re\<close> folds onto
  \<open>i\<close>, \<open>s\<close> and \<open>k\<close>.
\<close>

definition ci_eq :: "nat \<Rightarrow> nat \<Rightarrow> bool" where
  "ci_eq a c \<longleftrightarrow>
     c = a \<or> (97 \<le> a \<and> a \<le> 122 \<and> c + 32 = a) \<or> (a = 105 \<and> (c = 304 \<or> c = 305))
     \<or> (a = 115 \<and> c = 383) \<or> (a = 107 \<and> c = 8490)"

fun rx_lit_ci :: "ustr \<Rightarrow> matcher" where
  "rx_lit_ci [] t p = [p]"
| "rx_lit_ci (a # as) t p =
     (if p < length t \<and> ci_eq a (t ! p) then rx_lit_ci as t (p + 1) else [])"

text \<open>
  \<open>finditer\<close>: the leftmost match from \<open>p\<close> on, then the search goes on where the
  match ended. No pattern of the source matches the empty string; the step by one
  character after an empty match only keeps the recursion total.
\<close>

function rx_finditer :: "matcher \<Rightarrow> ustr \<Rightarrow> nat \<Rightarrow> (nat \<times> nat) list" where
  "rx_finditer m t p =
     (if p > length t then []
      else
        (case m t p of
           [] \<Rightarrow> rx_finditer m t (p + 1)
         | e # _ \<Rightarrow> (p, e) # rx_finditer m t (if e > p then e else p + 1)))"
  by pat_completeness auto
termination
  by (relation "measure (\<lambda>(m, t, p). length t + 1 - p)") auto

declare rx_finditer.simps [simp del]

text \<open>
  \<open>\w\<close> is an alphanumeric character of Unicode (\<open>str.isalnum\<close>) or the underscore.
  The table of Unicode is not part of the repository: it is the parameter \<open>alnum\<close>.
\<close>

definition isword :: "(nat \<Rightarrow> bool) \<Rightarrow> nat \<Rightarrow> bool" where
  "isword alnum c \<longleftrightarrow> alnum c \<or> c = UNDERSCORE"

definition ascii_alnum :: "nat \<Rightarrow> bool" where
  "ascii_alnum c \<longleftrightarrow> (48 \<le> c \<and> c \<le> 57) \<or> (65 \<le> c \<and> c \<le> 90) \<or> (97 \<le> c \<and> c \<le> 122)"

definition is_newline :: "nat \<Rightarrow> bool" where
  "is_newline c \<longleftrightarrow> c = NEWLINE"

text \<open>
  The fence patterns \<open>```json\s*\n([\s\S]*?)\n\s*```\<close> (with \<open>re.IGNORECASE\<close>) and
  \<open>```(?:\w+)?\s*\n([\s\S]*?)\n\s*```\<close>, in three parts: what precedes the group, the
  group, and what follows it.
\<close>

definition fence_json_opening :: matcher where
  "fence_json_opening =
     rx_seq (rx_lit_ci (str ''```json'')) (rx_seq (rx_star isspace) (rx_char is_newline))"

definition fence_any_opening :: "(nat \<Rightarrow> bool) \<Rightarrow> matcher" where
  "fence_any_opening alnum =
     rx_seq (rx_lit (str ''```''))
       (rx_seq (rx_opt (rx_plus (isword alnum)))
          (rx_seq (rx_star isspace) (rx_char is_newline)))"

definition fence_closing :: matcher where
  "fence_closing = rx_seq (rx_char is_newline) (rx_seq (rx_star isspace) (rx_lit (str ''```'')))"

text \<open>
  The matches of a fence pattern at \<open>p\<close>, each as \<open>(start(1), end(1), end())\<close>, and
  \<open>finditer\<close> for it, which keeps \<open>(start(1), end(1))\<close> of each match.
\<close>

definition fence_match_at :: "matcher \<Rightarrow> ustr \<Rightarrow> nat \<Rightarrow> (nat \<times> nat \<times> nat) list" where
  "fence_match_at opening t p =
     concat (map (\<lambda>g. concat (map (\<lambda>e. map (\<lambda>m. (g, e, m)) (fence_closing t e))
                                  (rx_lazy_any t g)))
                 (opening t p))"

function fence_finditer :: "matcher \<Rightarrow> ustr \<Rightarrow> nat \<Rightarrow> (nat \<times> nat) list" where
  "fence_finditer opening t p =
     (if p > length t then []
      else
        (case fence_match_at opening t p of
           [] \<Rightarrow> fence_finditer opening t (p + 1)
         | (g, e, m) # _ \<Rightarrow> (g, e) # fence_finditer opening t (if m > p then m else p + 1)))"
  by pat_completeness auto
termination
  by (relation "measure (\<lambda>(m, t, p). length t + 1 - p)") auto

declare fence_finditer.simps [simp del]

text \<open>The three patterns of \<open>extract_heuristic\<close>, compiled with \<open>re.IGNORECASE\<close>.\<close>

definition heuristic_tail :: matcher where
  "heuristic_tail = rx_seq (rx_opt (rx_char (\<lambda>c. c = COLON))) (rx_star isspace)"

definition heuristic_patterns :: "matcher list" where
  "heuristic_patterns =
     [rx_seq (rx_lit_ci (str ''here''))
        (rx_seq (rx_alt (rx_lit_ci (SQUOTE # str ''s'')) (rx_lit_ci (str '' is'')))
           (rx_seq (rx_opt (rx_lit_ci (str '' the'')))
              (rx_seq (rx_lit_ci (str '' ''))
                 (rx_seq (rx_alt (rx_lit_ci (str ''json''))
                            (rx_alt (rx_lit_ci (str ''output''))
                               (rx_alt (rx_lit_ci (str ''result''))
                                  (rx_lit_ci (str ''response'')))))
                    heuristic_tail)))),
      rx_seq (rx_lit_ci (str ''json ''))
        (rx_seq (rx_alt (rx_lit_ci (str ''output''))
                   (rx_alt (rx_lit_ci (str ''response'')) (rx_lit_ci (str ''result''))))
           heuristic_tail),
      rx_seq (rx_alt (rx_lit_ci (str ''output''))
                (rx_alt (rx_lit_ci (str ''result'')) (rx_lit_ci (str ''response''))))
        heuristic_tail]"

section \<open>extractor.py: fences, heuristics and the aggregation\<close>

text \<open>The first loop of \<open>extract_from_markdown_fence\<close>, over the matches.\<close>

fun fence_json_loop :: "ustr \<Rightarrow> (nat \<times> nat) list \<Rightarrow> Candidate list \<Rightarrow> exn + Candidate list" where
  "fence_json_loop t [] candidates = Inr candidates"
| "fence_json_loop t ((g, e) # ms) candidates =
     (if strip (slice t g e) \<noteq> [] \<and> looks_like_json (strip (slice t g e)) then
        (case mk_Candidate (strip (slice t g e)) g e MARKDOWN_FENCE (to_double 0.95) of
           Inl x \<Rightarrow> Inl x
         | Inr c \<Rightarrow> fence_json_loop t ms (candidates @ [c]))
      else fence_json_loop t ms candidates)"

text \<open>The second loop, with the overlap test against the candidates found so far.\<close>

fun fence_any_loop :: "ustr \<Rightarrow> (nat \<times> nat) list \<Rightarrow> Candidate list \<Rightarrow> exn + Candidate list" where
  "fence_any_loop t [] candidates = Inr candidates"
| "fence_any_loop t ((g, e) # ms) candidates =
     (if strip (slice t g e) \<noteq> [] \<and> looks_like_json (strip (slice t g e)) then
        (if list_ex (\<lambda>c. (start_pos c \<le> g \<and> g \<le> end_pos c)
                          \<or> (start_pos c \<le> e \<and> e \<le> end_pos c)) candidates
         then fence_any_loop t ms candidates
         else
           (case mk_Candidate (strip (slice t g e)) g e MARKDOWN_FENCE (to_double 0.85) of
              Inl x \<Rightarrow> Inl x
            | Inr c \<Rightarrow> fence_any_loop t ms (candidates @ [c])))
      else fence_any_loop t ms candidates)"

definition extract_from_markdown_fence :: "(nat \<Rightarrow> bool) \<Rightarrow> ustr \<Rightarrow> exn + Candidate list" where
  "extract_from_markdown_fence alnum t =
     (case fence_json_loop t (fence_finditer fence_json_opening t 0) [] of
        Inl x \<Rightarrow> Inl x
      | Inr candidates \<Rightarrow>
          fence_any_loop t (fence_finditer (fence_any_opening alnum) t 0) candidates)"

text \<open>
  \<open>extract_heuristic\<close>: for each match \<open>(s, e)\<close> of a pattern, the first candidate of
  the brace matching on \<open>text[e:]\<close>, if there is one.
\<close>

fun heuristic_match_loop :: "ustr \<Rightarrow> (nat \<times> nat) list \<Rightarrow> Candidate list \<Rightarrow> exn + Candidate list" where
  "heuristic_match_loop t [] candidates = Inr candidates"
| "heuristic_match_loop t ((s, e) # ms) candidates =
     (case extract_from_brace_matching (drop e t) of
        Inl x \<Rightarrow> Inl x
      | Inr [] \<Rightarrow> heuristic_match_loop t ms candidates
      | Inr (bc # _) \<Rightarrow>
          (case mk_Candidate (raw bc) (e + start_pos bc) (e + end_pos bc) HEURISTIC
                  (to_double 0.6) of
             Inl x \<Rightarrow> Inl x
           | Inr c \<Rightarrow> heuristic_match_loop t ms (candidates @ [c])))"

fun heuristic_pattern_loop :: "ustr \<Rightarrow> matcher list \<Rightarrow> Candidate list \<Rightarrow> exn + Candidate list" where
  "heuristic_pattern_loop t [] candidates = Inr candidates"
| "heuristic_pattern_loop t (pattern # ps) candidates =
     (case heuristic_match_loop t (rx_finditer pattern t 0) candidates of
        Inl x \<Rightarrow> Inl x
      | Inr candidates' \<Rightarrow> heuristic_pattern_loop t ps candidates')"

definition extract_heuristic :: "ustr \<Rightarrow> exn + Candidate list" where
  "extract_heuristic t = heuristic_pattern_loop t heuristic_patterns []"

text \<open>The loop of \<open>extract_all_candidates\<close> that keeps the first candidate of each raw text.\<close>

fun unique_loop :: "Candidate list \<Rightarrow> ustr set \<Rightarrow> Candidate list \<Rightarrow> Candidate list" where
  "unique_loop [] seen_raw unique_candidates = unique_candidates"
| "unique_loop (c # cs) seen_raw unique_candidates =
     (if raw c \<notin> seen_raw then unique_loop cs (insert (raw c) seen_raw) (unique_candidates @ [c])
      else unique_loop cs seen_raw unique_candidates)"

text \<open>
  \<open>sorted(xs, key=k, reverse=True)\<close> and \<open>xs.sort(key=k, reverse=True)\<close>: descending
  by the key, and stable (candidates of equal key keep their order), as the insertion
  sort \<open>sort_key\<close> on the negated key is.
\<close>

definition sorted_reverse :: "('a \<Rightarrow> 'k::{linorder, uminus}) \<Rightarrow> 'a list \<Rightarrow> 'a list" where
  "sorted_reverse k xs = sort_key (\<lambda>x. - k x) xs"

definition extract_all_candidates :: "(nat \<Rightarrow> bool) \<Rightarrow> ustr \<Rightarrow> exn + Candidate list" where
  "extract_all_candidates alnum t =
     (case extract_direct t of
        Inl x \<Rightarrow> Inl x
      | Inr c1 \<Rightarrow>
          (case extract_from_markdown_fence alnum t of
             Inl x \<Rightarrow> Inl x
           | Inr c2 \<Rightarrow>
               (case extract_from_brace_matching t of
                  Inl x \<Rightarrow> Inl x
                | Inr c3 \<Rightarrow>
                    (case extract_heuristic t of
                       Inl x \<Rightarrow> Inl x
                     | Inr c4 \<Rightarrow>
                         Inr (sorted_reverse confidence
                                (unique_loop (c1 @ c2 @ c3 @ c4) {} []))))))"

definition ranking_score :: "Candidate \<Rightarrow> real" where
  "ranking_score c =
     (let score = confidence c;
          length_bonus = min (to_double 0.1) (fdiv (real (length (raw c))) 10000);
          score = fadd score length_bonus
      in if cand_method c = DIRECT_PARSE then fadd score (to_double 0.1) else score)"

definition rank_candidates :: "Candidate list \<Rightarrow> Candidate list" where
  "rank_candidates candidates =
     (if candidates = [] then [] else sorted_reverse ranking_score candidates)"

section \<open>repair.py\<close>

record RepairResult =
  repaired :: ustr
  repairs_applied :: "string list"
  is_truncated :: bool

text \<open>
  \<open>_remove_trailing_commas\<close> substitutes \<open>,(\s*[}\]])\<close> by its group. A match
  starts at a comma; \<open>\s*\<close> takes the whole run of whitespace (a shorter run is followed
  by whitespace, which is no closer), and the next character must be a closer.
  \<open>trailing_comma_at cs\<close>, for the text \<open>cs\<close> after a comma, is the group and the text
  after the match.
\<close>

definition trailing_comma_at :: "ustr \<Rightarrow> (ustr \<times> ustr) option" where
  "trailing_comma_at cs =
     (case dropWhile isspace cs of
        [] \<Rightarrow> None
      | d # ds \<Rightarrow>
          if d = RBRACE \<or> d = RBRACKET then Some (takeWhile isspace cs @ [d], ds) else None)"

lemma trailing_comma_at_shorter:
  "trailing_comma_at cs = Some (g, rest) \<Longrightarrow> length rest < Suc (length cs)"
proof -
  assume a: "trailing_comma_at cs = Some (g, rest)"
  then obtain d where "dropWhile isspace cs = d # rest"
    by (auto simp: trailing_comma_at_def split: list.splits if_splits)
  then have "length (dropWhile isspace cs) = Suc (length rest)" by simp
  moreover have "length (dropWhile isspace cs) \<le> length cs" by (rule length_dropWhile_le)
  ultimately show ?thesis by simp
qed

text \<open>\<open>pattern.sub(r"\1", text)\<close>: the leftmost matches, one after the other.\<close>

function sub_trailing_commas :: "ustr \<Rightarrow> ustr" where
  "sub_trailing_commas [] = []"
| "sub_trailing_commas (c # cs) =
     (if c = COMMA then
        (case trailing_comma_at cs of
           Some (g, rest) \<Rightarrow> g @ sub_trailing_commas rest
         | None \<Rightarrow> c # sub_trailing_commas cs)
      else c # sub_trailing_commas cs)"
  by pat_completeness auto
termination
  by (relation "measure length") (auto dest: trailing_comma_at_shorter)

definition remove_trailing_commas :: "ustr \<Rightarrow> ustr \<times> string list" where
  "remove_trailing_commas t =
     (let new_text = sub_trailing_commas t in
      (new_text, if new_text \<noteq> t then [''trailing_comma_removal''] else []))"

definition is_json_string_quote :: "ustr \<Rightarrow> nat \<Rightarrow> bool" where
  "is_json_string_quote t pos =
     (if pos \<ge> length t then False
      else
        (let before_text = rstrip (take pos t);
             after_text = drop (pos + 1) t
         in if before_text \<noteq> [] \<and> last before_text \<in> {LBRACE, LBRACKET, COLON, COMMA}
            then True
            else
              (let after_stripped = lstrip after_text
               in after_stripped \<noteq> []
                    \<and> hd after_stripped \<in> {RBRACE, RBRACKET, COLON, COMMA})))"

text \<open>
  The \<open>while\<close> loop of \<open>_normalize_quotes\<close>, on the index \<open>i\<close>, with the flags
  \<open>in_double_string\<close> and \<open>modified\<close> and the list \<open>result\<close>.
\<close>

function normalize_quotes_loop :: "ustr \<Rightarrow> nat \<Rightarrow> bool \<Rightarrow> bool \<Rightarrow> ustr \<Rightarrow> ustr \<times> bool" where
  "normalize_quotes_loop t i in_double_string modified result =
     (if i < length t then
        (if t ! i = BACKSLASH \<and> i + 1 < length t then
           normalize_quotes_loop t (i + 2) in_double_string modified
             (result @ [t ! i, t ! (i + 1)])
         else if t ! i = DQUOTE then
           normalize_quotes_loop t (i + 1) (\<not> in_double_string) modified (result @ [t ! i])
         else if t ! i = SQUOTE \<and> \<not> in_double_string \<and> is_json_string_quote t i then
           normalize_quotes_loop t (i + 1) in_double_string True (result @ [DQUOTE])
         else normalize_quotes_loop t (i + 1) in_double_string modified (result @ [t ! i]))
      else (result, modified))"
  by pat_completeness auto
termination
  by (relation "measure (\<lambda>(t, i, d, m, r). length t - i)") auto

declare normalize_quotes_loop.simps [simp del]

definition normalize_quotes :: "ustr \<Rightarrow> ustr \<times> string list" where
  "normalize_quotes t =
     (case normalize_quotes_loop t 0 False False [] of
        (result, modified) \<Rightarrow> (result, if modified then [''quote_normalization''] else []))"

text \<open>
  \<open>_fix_unquoted_keys\<close> substitutes \<open>([{,]\s*)([a-zA-Z_][a-zA-Z0-9_]*)(\s*:)\<close>. Each
  of the three repetitions takes its whole run: a shorter run is followed by a character
  of the same class, which the next item of the pattern does not accept.
  \<open>unquoted_key_at cs\<close>, for the text \<open>cs\<close> after a brace or comma, is the replacement
  of the rest of the match and the text after it.
\<close>

definition is_ident_start :: "nat \<Rightarrow> bool" where
  "is_ident_start c \<longleftrightarrow> (97 \<le> c \<and> c \<le> 122) \<or> (65 \<le> c \<and> c \<le> 90) \<or> c = UNDERSCORE"

definition is_ident_char :: "nat \<Rightarrow> bool" where
  "is_ident_char c \<longleftrightarrow> is_ident_start c \<or> (48 \<le> c \<and> c \<le> 57)"

definition unquoted_key_at :: "ustr \<Rightarrow> (ustr \<times> ustr) option" where
  "unquoted_key_at cs =
     (case dropWhile isspace cs of
        [] \<Rightarrow> None
      | d # ds \<Rightarrow>
          if is_ident_start d then
            (case dropWhile isspace (dropWhile is_ident_char ds) of
               [] \<Rightarrow> None
             | e # es \<Rightarrow>
                 if e = COLON then
                   Some (takeWhile isspace cs @ [DQUOTE] @ (d # takeWhile is_ident_char ds)
                           @ [DQUOTE] @ takeWhile isspace (dropWhile is_ident_char ds) @ [e],
                         es)
                 else None)
          else None)"

lemma unquoted_key_at_shorter:
  "unquoted_key_at cs = Some (g, rest) \<Longrightarrow> length rest < Suc (length cs)"
proof -
  assume a: "unquoted_key_at cs = Some (g, rest)"
  then obtain d ds e where d: "dropWhile isspace cs = d # ds"
    and e: "dropWhile isspace (dropWhile is_ident_char ds) = e # rest"
    by (auto simp: unquoted_key_at_def split: list.splits if_splits)
  from e have "Suc (length rest) = length (dropWhile isspace (dropWhile is_ident_char ds))"
    by simp
  also have "\<dots> \<le> length (dropWhile is_ident_char ds)" by (rule length_dropWhile_le)
  also have "\<dots> \<le> length ds" by (rule length_dropWhile_le)
  also have "\<dots> \<le> length (dropWhile isspace cs)" using d by simp
  also have "\<dots> \<le> length cs" by (rule length_dropWhile_le)
  finally show ?thesis by simp
qed

function sub_unquoted_keys :: "ustr \<Rightarrow> ustr" where
  "sub_unquoted_keys [] = []"
| "sub_unquoted_keys (c # cs) =
     (if c = LBRACE \<or> c = COMMA then
        (case unquoted_key_at cs of
           Some (g, rest) \<Rightarrow> c # g @ sub_unquoted_keys rest
         | None \<Rightarrow> c # sub_unquoted_keys cs)
      else c # sub_unquoted_keys cs)"
  by pat_completeness auto
termination
  by (relation "measure length") (auto dest: unquoted_key_at_shorter)

definition fix_unquoted_keys :: "ustr \<Rightarrow> ustr \<times> string list" where
  "fix_unquoted_keys t =
     (let new_text = sub_unquoted_keys t in
      (new_text, if new_text \<noteq> t then [''unquoted_key_fix''] else []))"

abbreviation BOM :: nat where "BOM \<equiv> 65279"

text \<open>\<open>text.replace(char, "")\<close> for a one-character \<open>char\<close>.\<close>

definition remove_char :: "ustr \<Rightarrow> nat \<Rightarrow> ustr" where
  "remove_char t ch = filter (\<lambda>c. c \<noteq> ch) t"

definition zero_width_chars :: "nat list" where
  "zero_width_chars = [8203, 8204, 8205, BOM]"

definition cleanup_whitespace :: "ustr \<Rightarrow> ustr \<times> string list" where
  "cleanup_whitespace t =
     (let (t1, repairs) =
            (if t \<noteq> [] \<and> hd t = BOM then (tl t, [''bom_removal'']) else (t, []));
          original = t1;
          t2 = foldl remove_char t1 zero_width_chars
      in (t2, if t2 \<noteq> original \<and> ''bom_removal'' \<notin> set repairs
              then repairs @ [''invisible_char_removal''] else repairs))"

text \<open>The \<open>for\<close> loop of \<open>is_truncated_json\<close>: the two counters and the two flags.\<close>

fun truncated_loop :: "ustr \<Rightarrow> int \<Rightarrow> int \<Rightarrow> bool \<Rightarrow> bool \<Rightarrow> int \<times> int \<times> bool \<times> bool" where
  "truncated_loop [] open_braces open_brackets in_string escape_next =
     (open_braces, open_brackets, in_string, escape_next)"
| "truncated_loop (c # cs) open_braces open_brackets in_string escape_next =
     (if escape_next then truncated_loop cs open_braces open_brackets in_string False
      else if c = BACKSLASH then truncated_loop cs open_braces open_brackets in_string True
      else if c = DQUOTE then
        truncated_loop cs open_braces open_brackets (\<not> in_string) escape_next
      else if in_string then truncated_loop cs open_braces open_brackets in_string escape_next
      else if c = LBRACE then
        truncated_loop cs (open_braces + 1) open_brackets in_string escape_next
      else if c = RBRACE then
        truncated_loop cs (open_braces - 1) open_brackets in_string escape_next
      else if c = LBRACKET then
        truncated_loop cs open_braces (open_brackets + 1) in_string escape_next
      else if c = RBRACKET then
        truncated_loop cs open_braces (open_brackets - 1) in_string escape_next
      else truncated_loop cs open_braces open_brackets in_string escape_next)"

definition is_truncated_json :: "ustr \<Rightarrow> bool" where
  "is_truncated_json t =
     (let stripped = strip t in
      if stripped = [] then False
      else
        (case truncated_loop stripped 0 0 False False of
           (open_braces, open_brackets, in_string, escape_next) \<Rightarrow>
             if in_string then True
             else if open_braces > 0 \<or> open_brackets > 0 then True
             else escape_next))"

text \<open>
  The \<open>for\<close> loop of \<open>_complete_truncated\<close>: the stack of the closers still owed
  (its top at the head of the list) and the two flags.
\<close>

fun complete_loop :: "ustr \<Rightarrow> nat list \<Rightarrow> bool \<Rightarrow> bool \<Rightarrow> nat list \<times> bool \<times> bool" where
  "complete_loop [] stack in_string escape_next = (stack, in_string, escape_next)"
| "complete_loop (c # cs) stack in_string escape_next =
     (if escape_next then complete_loop cs stack in_string False
      else if c = BACKSLASH then complete_loop cs stack in_string True
      else if c = DQUOTE then complete_loop cs stack (\<not> in_string) escape_next
      else if in_string then complete_loop cs stack in_string escape_next
      else if c = LBRACE then complete_loop cs (RBRACE # stack) in_string escape_next
      else if c = LBRACKET then complete_loop cs (RBRACKET # stack) in_string escape_next
      else if (c = RBRACE \<or> c = RBRACKET) \<and> stack \<noteq> [] \<and> hd stack = c then
        complete_loop cs (tl stack) in_string escape_next
      else complete_loop cs stack in_string escape_next)"

definition complete_truncated :: "ustr \<Rightarrow> ustr \<times> string list" where
  "complete_truncated t =
     (let result = rstrip t in
      case complete_loop result [] False False of
        (stack, in_string, escape_next) \<Rightarrow>
          (let (result, repairs) =
                 (if in_string then (result @ [DQUOTE], [''string_completion''])
                  else (result, []))
           in (result @ stack, repairs @ replicate (length stack) ''brace_completion'')))"

text \<open>The body of one iteration of the loop of \<open>repair_json\<close>.\<close>

definition repair_pass :: "ustr \<Rightarrow> ustr \<times> string list" where
  "repair_pass current =
     (let (current, applied1) = remove_trailing_commas current;
          (current, applied2) = normalize_quotes current;
          (current, applied3) = fix_unquoted_keys current;
          (current, applied4) = cleanup_whitespace current
      in (current, applied1 @ applied2 @ applied3 @ applied4))"

fun repair_loop :: "nat \<Rightarrow> ustr \<Rightarrow> string list \<Rightarrow> ustr \<times> string list" where
  "repair_loop 0 current repairs = (current, repairs)"
| "repair_loop (Suc n) current repairs =
     (case repair_pass current of
        (new, applied) \<Rightarrow>
          if new = current then (new, repairs @ applied)
          else repair_loop n new (repairs @ applied))"

definition repair_json :: "ustr \<Rightarrow> nat \<Rightarrow> RepairResult" where
  "repair_json t max_iterations =
     (case repair_loop max_iterations t [] of
        (current, repairs) \<Rightarrow>
          if is_truncated_json current then
            (case complete_truncated current of
               (completed, applied) \<Rightarrow>
                 \<lparr>repaired = completed, repairs_applied = repairs @ applied,
                   is_truncated = True\<rparr>)
          else \<lparr>repaired = current, repairs_applied = repairs, is_truncated = False\<rparr>)"

section \<open>parser.py\<close>

text \<open>
  \<open>orjson.loads\<close> is not part of the repository: the strict decoder is the parameter
  \<open>loads\<close>, which returns the decoded value or the message of its
  \<open>JSONDecodeError\<close>. The field \<open>data\<close> holds one decoded value, or the list of
  them under the strategy \<open>all\<close>.
\<close>

datatype 'v payload = Single 'v | Many "'v list"

datatype strategy = First | Largest | All

record 'v ExtractResult =
  success :: bool
  data :: "'v payload option"
  raw_json :: "ustr option"
  res_confidence :: real
  res_method :: "ExtractionMethod option"
  res_repairs_applied :: "string list"
  candidates_found :: nat
  error :: "ExtractError option"

text \<open>The constructor of the dataclass, with the check of \<open>__post_init__\<close>.\<close>

definition mk_ExtractResult ::
  "bool \<Rightarrow> 'v payload option \<Rightarrow> ustr option \<Rightarrow> real \<Rightarrow> ExtractionMethod option \<Rightarrow>
   string list \<Rightarrow> nat \<Rightarrow> ExtractError option \<Rightarrow> exn + 'v ExtractResult" where
  "mk_ExtractResult s d r c m rs n e =
     (if \<not> (0 \<le> c \<and> c \<le> 1) then Inl ValueError
      else Inr \<lparr>success = s, data = d, raw_json = r, res_confidence = c, res_method = m,
                res_repairs_applied = rs, candidates_found = n, error = e\<rparr>)"

definition mk_ExtractError :: "ustr \<Rightarrow> ErrorType \<Rightarrow> ExtractError" where
  "mk_ExtractError msg ty = \<lparr>message = msg, error_type = ty, position = None\<rparr>"

text \<open>\<open>str(n)\<close> for a length \<open>n\<close>.\<close>

function str_of_nat :: "nat \<Rightarrow> ustr" where
  "str_of_nat n = (if n < 10 then [48 + n] else str_of_nat (n div 10) @ [48 + n mod 10])"
  by pat_completeness auto
termination
  by (relation "measure id") auto

declare str_of_nat.simps [simp del]

definition sort_by_size :: "Candidate list \<Rightarrow> Candidate list" where
  "sort_by_size candidates = sorted_reverse (\<lambda>c. int (length (raw c))) candidates"

text \<open>
  The loop of \<open>_extract_first_valid\<close> over the ranked candidates; \<open>n\<close> is
  \<open>len(candidates)\<close>, \<open>last_error\<close> the message of the last decoding error.
\<close>

fun first_valid_loop ::
  "(ustr \<Rightarrow> ustr + 'v) \<Rightarrow> bool \<Rightarrow> nat \<Rightarrow> Candidate list \<Rightarrow> string list \<Rightarrow> ustr option \<Rightarrow>
   exn + 'v ExtractResult" where
  "first_valid_loop loads repair n [] all_repairs last_error =
     mk_ExtractResult False None None 0.0 None all_repairs n
       (Some (mk_ExtractError
          (str ''Failed to parse JSON from '' @ str_of_nat n @ str '' candidate(s)''
             @ (case last_error of None \<Rightarrow> [] | Some e \<Rightarrow> str '': '' @ e))
          INVALID_JSON))"
| "first_valid_loop loads repair n (candidate # rest) all_repairs last_error =
     (case loads (raw candidate) of
        Inr d \<Rightarrow>
          mk_ExtractResult True (Some (Single d)) (Some (raw candidate)) (confidence candidate)
            (Some (cand_method candidate)) [] n None
      | Inl e \<Rightarrow>
          if \<not> repair then first_valid_loop loads repair n rest all_repairs (Some e)
          else
            (case loads (repaired (repair_json (raw candidate) 5)) of
               Inr d \<Rightarrow>
                 (let repair_result = repair_json (raw candidate) 5;
                      repairs = repairs_applied repair_result;
                      adjusted_confidence =
                        (if repairs \<noteq> [] then fmul (confidence candidate) (to_double 0.9)
                         else confidence candidate);
                      adjusted_confidence =
                        (if is_truncated repair_result
                         then fmul adjusted_confidence (to_double 0.8)
                         else adjusted_confidence)
                  in mk_ExtractResult True (Some (Single d)) (Some (repaired repair_result))
                       adjusted_confidence (Some (cand_method candidate)) repairs n None)
             | Inl e' \<Rightarrow>
                 first_valid_loop loads repair n rest
                   (all_repairs @ repairs_applied (repair_json (raw candidate) 5)) (Some e')))"

definition extract_first_valid ::
  "(ustr \<Rightarrow> ustr + 'v) \<Rightarrow> Candidate list \<Rightarrow> bool \<Rightarrow> exn + 'v ExtractResult" where
  "extract_first_valid loads candidates repair =
     first_valid_loop loads repair (length (rank_candidates candidates))
       (rank_candidates candidates) [] None"

text \<open>
  The loop of \<open>_extract_all\<close>, with \<open>results\<close>, \<open>all_repairs\<close>,
  \<open>successful_methods\<close> and \<open>max_confidence\<close>.
\<close>

fun all_loop ::
  "(ustr \<Rightarrow> ustr + 'v) \<Rightarrow> bool \<Rightarrow> Candidate list \<Rightarrow> 'v list \<Rightarrow> string list \<Rightarrow>
   ExtractionMethod list \<Rightarrow> real \<Rightarrow> 'v list \<times> string list \<times> ExtractionMethod list \<times> real" where
  "all_loop loads repair [] results all_repairs successful_methods max_confidence =
     (results, all_repairs, successful_methods, max_confidence)"
| "all_loop loads repair (candidate # rest) results all_repairs successful_methods
     max_confidence =
     (case loads (raw candidate) of
        Inr d \<Rightarrow>
          all_loop loads repair rest (results @ [d]) all_repairs
            (successful_methods @ [cand_method candidate])
            (max max_confidence (confidence candidate))
      | Inl e \<Rightarrow>
          if \<not> repair then
            all_loop loads repair rest results all_repairs successful_methods max_confidence
          else
            (case loads (repaired (repair_json (raw candidate) 5)) of
               Inr d \<Rightarrow>
                 all_loop loads repair rest (results @ [d])
                   (all_repairs @ repairs_applied (repair_json (raw candidate) 5))
                   (successful_methods @ [cand_method candidate])
                   (max max_confidence
                      (if repairs_applied (repair_json (raw candidate) 5) \<noteq> []
                       then fmul (confidence candidate) (to_double 0.9)
                       else confidence candidate))
             | Inl e' \<Rightarrow>
                 all_loop loads repair rest results
                   (all_repairs @ repairs_applied (repair_json (raw candidate) 5))
                   successful_methods max_confidence))"

definition extract_all ::
  "(ustr \<Rightarrow> ustr + 'v) \<Rightarrow> Candidate list \<Rightarrow> bool \<Rightarrow> exn + 'v ExtractResult" where
  "extract_all loads candidates repair =
     (case all_loop loads repair candidates [] [] [] 0.0 of
        (results, all_repairs, successful_methods, max_confidence) \<Rightarrow>
          if results = [] then
            mk_ExtractResult False None None 0.0 None all_repairs (length candidates)
              (Some (mk_ExtractError
                 (str ''Failed to parse any JSON from '' @ str_of_nat (length candidates)
                    @ str '' candidate(s)'')
                 INVALID_JSON))
          else
            mk_ExtractResult True (Some (Many results)) None max_confidence
              (if successful_methods \<noteq> [] then Some (hd successful_methods) else None)
              all_repairs (length candidates) None)"

definition extract_json_with_metadata ::
  "(ustr \<Rightarrow> ustr + 'v) \<Rightarrow> (nat \<Rightarrow> bool) \<Rightarrow> ustr \<Rightarrow> bool \<Rightarrow> strategy \<Rightarrow>
   exn + 'v ExtractResult" where
  "extract_json_with_metadata loads alnum t repair strat =
     (if t = [] \<or> strip t = [] then
        mk_ExtractResult False None None 0.0 None [] 0
          (Some (mk_ExtractError (str ''Empty input text'') NO_JSON_FOUND))
      else
        (case extract_all_candidates alnum t of
           Inl x \<Rightarrow> Inl x
         | Inr candidates \<Rightarrow>
             if candidates = [] then
               mk_ExtractResult False None None 0.0 None [] 0
                 (Some (mk_ExtractError (str ''No JSON structure found in input'')
                    NO_JSON_FOUND))
             else if strat = All then extract_all loads candidates repair
             else if strat = Largest then
               extract_first_valid loads (sort_by_size candidates) repair
             else extract_first_valid loads candidates repair))"

text \<open>
  \<open>extract_json\<close>: the data on success; on failure the error is raised, or \<open>None\<close>
  is returned when \<open>raise_on_error\<close> is false.
\<close>

definition extract_json ::
  "(ustr \<Rightarrow> ustr + 'v) \<Rightarrow> (nat \<Rightarrow> bool) \<Rightarrow> ustr \<Rightarrow> bool \<Rightarrow> strategy \<Rightarrow> bool \<Rightarrow>
   exn + 'v payload option" where
  "extract_json loads alnum t repair strat raise_on_error =
     (case extract_json_with_metadata loads alnum t repair strat of
        Inl x \<Rightarrow> Inl x
      | Inr result \<Rightarrow>
          if success result then Inr (data result)
          else if raise_on_error then
            (case error result of
               Some e \<Rightarrow> Inl (Raised e)
             | None \<Rightarrow>
                 Inl (Raised (mk_ExtractError (str ''Failed to extract JSON'') NO_JSON_FOUND)))
          else Inr None)"

section \<open>A reference decoder for concrete inputs\<close>

text \<open>
  The theorems about the orchestrator hold for every decoder \<open>loads\<close>. Where a
  concrete input is evaluated, \<open>loads\<close> is this strict decoder of a fragment of JSON
  (RFC 8259): objects, arrays, strings with the two-character escapes, integers and
  the three literals. It rejects fractions, exponents and \<open>\u\<close> escapes, which no
  input evaluated below contains; on the fragment, a conformant decoder returns the
  same value.
\<close>

datatype json =
  JNull | JBool bool | JNumber int | JString ustr | JArray "json list"
  | JObject "(ustr \<times> json) list"

definition json_ws :: "nat \<Rightarrow> bool" where
  "json_ws c \<longleftrightarrow> c = 32 \<or> c = 9 \<or> c = 10 \<or> c = 13"

definition skip_ws :: "ustr \<Rightarrow> ustr" where
  "skip_ws cs = dropWhile json_ws cs"

definition unescape :: "nat \<Rightarrow> nat option" where
  "unescape c =
     (if c = DQUOTE \<or> c = BACKSLASH \<or> c = 47 then Some c
      else if c = 98 then Some 8 else if c = 102 then Some 12 else if c = 110 then Some 10
      else if c = 114 then Some 13 else if c = 116 then Some 9 else None)"

text \<open>The rest of a string literal, after its opening quote.\<close>

fun json_string :: "ustr \<Rightarrow> ustr \<Rightarrow> (ustr \<times> ustr) option" where
  "json_string acc [] = None"
| "json_string acc [c] = (if c = DQUOTE then Some (acc, []) else None)"
| "json_string acc (c # d # cs) =
     (if c = DQUOTE then Some (acc, d # cs)
      else if c = BACKSLASH then
        (case unescape d of None \<Rightarrow> None | Some u \<Rightarrow> json_string (acc @ [u]) cs)
      else if c < 32 then None
      else json_string (acc @ [c]) (d # cs))"

definition is_digit :: "nat \<Rightarrow> bool" where
  "is_digit c \<longleftrightarrow> 48 \<le> c \<and> c \<le> 57"

definition digits_value :: "ustr \<Rightarrow> int" where
  "digits_value ds = foldl (\<lambda>v d. 10 * v + (int d - 48)) 0 ds"

text \<open>An integer: an optional minus sign, then \<open>0\<close> or digits that do not start with \<open>0\<close>.\<close>

definition json_number :: "ustr \<Rightarrow> (json \<times> ustr) option" where
  "json_number cs =
     (let neg = (cs \<noteq> [] \<and> hd cs = 45);
          body = (if neg then tl cs else cs);
          ds = takeWhile is_digit body;
          rest = dropWhile is_digit body
      in if ds = [] \<or> (length ds > 1 \<and> hd ds = 48) then None
         else if rest \<noteq> [] \<and> (hd rest = 46 \<or> hd rest = 101 \<or> hd rest = 69) then None
         else Some (JNumber (if neg then - digits_value ds else digits_value ds), rest))"

text \<open>
  Recursive descent; the first argument bounds the depth of the recursion and is set
  to the length of the text by \<open>json_loads\<close>.
\<close>

fun json_value :: "nat \<Rightarrow> ustr \<Rightarrow> (json \<times> ustr) option"
  and json_elements :: "nat \<Rightarrow> json list \<Rightarrow> ustr \<Rightarrow> (json \<times> ustr) option"
  and json_members :: "nat \<Rightarrow> (ustr \<times> json) list \<Rightarrow> ustr \<Rightarrow> (json \<times> ustr) option" where
  "json_value 0 cs = None"
| "json_value (Suc n) cs =
     (case skip_ws cs of
        [] \<Rightarrow> None
      | c # r \<Rightarrow>
          if c = DQUOTE then
            (case json_string [] r of None \<Rightarrow> None | Some (v, r') \<Rightarrow> Some (JString v, r'))
          else if c = LBRACE then
            (case skip_ws r of
               [] \<Rightarrow> None
             | d # r' \<Rightarrow> if d = RBRACE then Some (JObject [], r') else json_members n [] r)
          else if c = LBRACKET then
            (case skip_ws r of
               [] \<Rightarrow> None
             | d # r' \<Rightarrow> if d = RBRACKET then Some (JArray [], r') else json_elements n [] r)
          else if take 4 (c # r) = str ''true'' then Some (JBool True, drop 3 r)
          else if take 5 (c # r) = str ''false'' then Some (JBool False, drop 4 r)
          else if take 4 (c # r) = str ''null'' then Some (JNull, drop 3 r)
          else json_number (c # r))"
| "json_elements 0 acc cs = None"
| "json_elements (Suc n) acc cs =
     (case json_value n cs of
        None \<Rightarrow> None
      | Some (v, r) \<Rightarrow>
          (case skip_ws r of
             [] \<Rightarrow> None
           | d # r' \<Rightarrow>
               if d = COMMA then json_elements n (acc @ [v]) r'
               else if d = RBRACKET then Some (JArray (acc @ [v]), r')
               else None))"
| "json_members 0 acc cs = None"
| "json_members (Suc n) acc cs =
     (case skip_ws cs of
        [] \<Rightarrow> None
      | q # r \<Rightarrow>
          if q \<noteq> DQUOTE then None
          else
            (case json_string [] r of
               None \<Rightarrow> None
             | Some (k, r1) \<Rightarrow>
                 (case skip_ws r1 of
                    [] \<Rightarrow> None
                  | c # r2 \<Rightarrow>
                      if c \<noteq> COLON then None
                      else
                        (case json_value n r2 of
                           None \<Rightarrow> None
                         | Some (v, r3) \<Rightarrow>
                             (case skip_ws r3 of
                                [] \<Rightarrow> None
                              | d # r4 \<Rightarrow>
                                  if d = COMMA then json_members n (acc @ [(k, v)]) r4
                                  else if d = RBRACE then Some (JObject (acc @ [(k, v)]), r4)
                                  else None)))))"

definition json_loads :: "ustr \<Rightarrow> ustr + json" where
  "json_loads t =
     (case json_value (Suc (length t)) t of
        None \<Rightarrow> Inl (str ''invalid JSON'')
      | Some (v, r) \<Rightarrow> if skip_ws r = [] then Inr v else Inl (str ''trailing characters''))"

section \<open>Notions used to state the properties\<close>

text \<open>
  Properly paired text, as the scanner reads it. The body of a string literal is made
  of characters other than the quote and the backslash, and of escapes: a backslash and
  any one character. Paired text is made of plain characters, escapes, string
  literals, and groups in braces or brackets around paired text.
\<close>

inductive str_body :: "ustr \<Rightarrow> bool" where
  sb_nil: "str_body []"
| sb_char: "c \<noteq> DQUOTE \<Longrightarrow> c \<noteq> BACKSLASH \<Longrightarrow> str_body s \<Longrightarrow> str_body (c # s)"
| sb_esc: "str_body s \<Longrightarrow> str_body (BACKSLASH # c # s)"

definition plain :: "nat \<Rightarrow> bool" where
  "plain c \<longleftrightarrow> c \<noteq> LBRACE \<and> c \<noteq> RBRACE \<and> c \<noteq> LBRACKET \<and> c \<noteq> RBRACKET
     \<and> c \<noteq> DQUOTE \<and> c \<noteq> BACKSLASH"

inductive paired :: "ustr \<Rightarrow> bool" where
  p_nil: "paired []"
| p_char: "plain c \<Longrightarrow> paired w \<Longrightarrow> paired (c # w)"
| p_esc: "paired w \<Longrightarrow> paired (BACKSLASH # c # w)"
| p_str: "str_body s \<Longrightarrow> paired w \<Longrightarrow> paired (DQUOTE # s @ DQUOTE # w)"
| p_brace: "paired u \<Longrightarrow> paired w \<Longrightarrow> paired (LBRACE # u @ RBRACE # w)"
| p_bracket: "paired u \<Longrightarrow> paired w \<Longrightarrow> paired (LBRACKET # u @ RBRACKET # w)"

code_pred str_body .
code_pred paired .

definition opener :: "nat \<Rightarrow> bool" where
  "opener c \<longleftrightarrow> c = LBRACE \<or> c = LBRACKET"

definition closer_of :: "nat \<Rightarrow> nat" where
  "closer_of c = (if c = LBRACE then RBRACE else RBRACKET)"

definition closer :: "nat \<Rightarrow> bool" where
  "closer c \<longleftrightarrow> c = RBRACE \<or> c = RBRACKET"

text \<open>
  \<open>crossed x v\<close>: read after the opener \<open>x\<close>, the text \<open>v\<close> reaches a closer that
  does not match the innermost opener still open. \<open>dangling v\<close>: the text \<open>v\<close> ends
  with the opener before it still open (possibly inside a string or on an escape).
\<close>

inductive crossed :: "nat \<Rightarrow> ustr \<Rightarrow> bool" where
  cr_here: "paired w \<Longrightarrow> closer c \<Longrightarrow> c \<noteq> closer_of x \<Longrightarrow> crossed x (w @ c # rest)"
| cr_inner: "paired w \<Longrightarrow> opener y \<Longrightarrow> crossed y v \<Longrightarrow> crossed x (w @ y # v)"

inductive dangling :: "ustr \<Rightarrow> bool" where
  dg_end: "paired w \<Longrightarrow> dangling w"
| dg_escape: "paired w \<Longrightarrow> dangling (w @ [BACKSLASH])"
| dg_string: "paired w \<Longrightarrow> str_body s \<Longrightarrow> dangling (w @ DQUOTE # s)"
| dg_string_escape: "paired w \<Longrightarrow> str_body s \<Longrightarrow> dangling (w @ DQUOTE # s @ [BACKSLASH])"
| dg_inner: "paired w \<Longrightarrow> opener y \<Longrightarrow> dangling v \<Longrightarrow> dangling (w @ y # v)"

code_pred crossed .
code_pred dangling .

text \<open>
  The claim's formula for the confidence of a brace-matched span, from whether the span
  has a double quote, has a colon, and is shorter than 10 characters: base \<open>0.8\<close>, plus
  \<open>0.05\<close>, plus \<open>0.05\<close>, minus \<open>0.1\<close>, clamped into \<open>[0.5, 0.9]\<close>. The first reading is
  in Python floats, each step rounded; the second is the same formula in exact
  arithmetic.
\<close>

definition brace_formula :: "bool \<Rightarrow> bool \<Rightarrow> bool \<Rightarrow> real" where
  "brace_formula has_quote has_colon is_short =
     min (to_double 0.9) (max (to_double 0.5)
       (let base = to_double 0.8;
            with_quote = (if has_quote then fadd base (to_double 0.05) else base);
            with_colon = (if has_colon then fadd with_quote (to_double 0.05) else with_quote)
        in if is_short then fsub with_colon (to_double 0.1) else with_colon))"

definition brace_formula_exact :: "bool \<Rightarrow> bool \<Rightarrow> bool \<Rightarrow> real" where
  "brace_formula_exact has_quote has_colon is_short =
     min 0.9 (max 0.5 (0.8 + (if has_quote then 0.05 else 0)
                           + (if has_colon then 0.05 else 0)
                           - (if is_short then 0.1 else 0)))"

text \<open>
  What the claim says of a candidate of the brace matching on the text \<open>t\<close>: the
  confidence of the formula, the method, and the span that \<open>_match_braces\<close> matched.
\<close>

definition brace_ok :: "ustr \<Rightarrow> Candidate \<Rightarrow> bool" where
  "brace_ok t c \<longleftrightarrow>
     confidence c =
       brace_formula (DQUOTE \<in> set (raw c)) (COLON \<in> set (raw c)) (length (raw c) < 10)
     \<and> cand_method c = BRACE_MATCH
     \<and> raw c = slice t (start_pos c) (end_pos c)
     \<and> match_braces t (start_pos c) = Some (start_pos c, end_pos c - 1)"

text \<open>
  The claim's own words for truncation: the replay with a bracket stack, which is the
  loop of \<open>_complete_truncated\<close>, leaves an open string, a non-empty stack or a live
  escape.
\<close>

definition replay_leaves_open :: "ustr \<Rightarrow> bool" where
  "replay_leaves_open t =
     (case complete_loop (strip t) [] False False of
        (stack, in_string, escape_next) \<Rightarrow> in_string \<or> stack \<noteq> [] \<or> escape_next)"

text \<open>
  The characters the replay reads outside string literals (neither quoted, nor escaped,
  nor a quote or a backslash themselves), with the two flags at the end of the text.
\<close>

fun outside_strings :: "ustr \<Rightarrow> bool \<Rightarrow> bool \<Rightarrow> ustr \<times> bool \<times> bool" where
  "outside_strings [] in_string escape_next = ([], in_string, escape_next)"
| "outside_strings (c # cs) in_string escape_next =
     (if escape_next then outside_strings cs in_string False
      else if c = BACKSLASH then outside_strings cs in_string True
      else if c = DQUOTE then outside_strings cs (\<not> in_string) False
      else if in_string then outside_strings cs in_string False
      else (case outside_strings cs in_string False of (out, i, e) \<Rightarrow> (c # out, i, e)))"

text \<open>The check of \<open>Candidate.__post_init__\<close>, as a predicate on a candidate.\<close>

definition valid_conf :: "Candidate \<Rightarrow> bool" where
  "valid_conf c \<longleftrightarrow> 0 \<le> confidence c \<and> confidence c \<le> 1"

text \<open>
  What every result of the orchestrator satisfies: the confidence bounds, no error on
  success, and on failure no data and an error of one of the two kinds it raises.
\<close>

definition result_ok :: "'v ExtractResult \<Rightarrow> bool" where
  "result_ok r \<longleftrightarrow>
     0 \<le> res_confidence r \<and> res_confidence r \<le> 1
     \<and> (if success r then error r = None
         else data r = None
              \<and> (\<exists>e. error r = Some e
                     \<and> (error_type e = NO_JSON_FOUND \<or> error_type e = INVALID_JSON)))"

text \<open>
  A candidate the loop of \<open>_extract_first_valid\<close> passes over: its raw text does not
  decode and, when repair is on, neither does its repaired text.
\<close>

definition rejected :: "(ustr \<Rightarrow> ustr + 'v) \<Rightarrow> bool \<Rightarrow> Candidate \<Rightarrow> bool" where
  "rejected loads repair c \<longleftrightarrow>
     isl (loads (raw c)) \<and> (repair \<longrightarrow> isl (loads (repaired (repair_json (raw c) 5))))"

section \<open>Properties of the detection strategies\<close>

lemma lstrip_fixed: "t = [] \<or> \<not> isspace (hd t) \<Longrightarrow> lstrip t = t"
  by (cases t) (auto simp: lstrip_def)

lemma rstrip_fixed: "t = [] \<or> \<not> isspace (last t) \<Longrightarrow> rstrip t = t"
  by (cases "rev t") (auto simp: rstrip_def last_rev [symmetric] simp del: last_rev)

lemma rstrip_last: "rstrip t \<noteq> [] \<Longrightarrow> \<not> isspace (last (rstrip t))"
  unfolding rstrip_def using hd_dropWhile [of isspace "rev t"] by (simp add: last_rev)

lemma lstrip_hd: "lstrip t \<noteq> [] \<Longrightarrow> \<not> isspace (hd (lstrip t))"
  unfolding lstrip_def by (rule hd_dropWhile)

lemma lstrip_last: "lstrip t \<noteq> [] \<Longrightarrow> last (lstrip t) = last t"
proof -
  assume ne: "lstrip t \<noteq> []"
  have "t = takeWhile isspace t @ lstrip t" by (simp add: lstrip_def)
  then have "last t = last (takeWhile isspace t @ lstrip t)" by simp
  also have "\<dots> = last (lstrip t)" using ne by simp
  finally show ?thesis by simp
qed

lemma lstrip_Nil_imp: "lstrip t = [] \<Longrightarrow> rstrip t = []"
  by (simp add: lstrip_def rstrip_def dropWhile_eq_Nil_conv)

lemma strip_ends: "strip t \<noteq> [] \<Longrightarrow> \<not> isspace (hd (strip t)) \<and> \<not> isspace (last (strip t))"
proof -
  assume ne: "strip t \<noteq> []"
  then have r: "rstrip t \<noteq> []" by (auto simp: strip_def lstrip_def)
  from ne have "\<not> isspace (hd (strip t))" unfolding strip_def by (rule lstrip_hd)
  moreover have "last (strip t) = last (rstrip t)"
    using ne unfolding strip_def by (rule lstrip_last)
  ultimately show ?thesis using rstrip_last [OF r] by simp
qed

lemma strip_strip: "strip (strip t) = strip t"
proof (cases "strip t = []")
  case True
  have "strip [] = []" by (simp add: strip_def lstrip_def rstrip_def)
  with True show ?thesis by simp
next
  case False
  from strip_ends [OF False] have "rstrip (strip t) = strip t" "lstrip (strip t) = strip t"
    by (simp_all add: rstrip_fixed lstrip_fixed)
  then show ?thesis by (simp add: strip_def)
qed

text \<open>
  C3, as amended. \<open>extract_direct\<close> emits its one candidate (raw text the trimmed text,
  offsets \<open>0\<close> and \<open>len(text)\<close>, method \<open>direct\<close>, confidence \<open>1.0\<close>) exactly when the
  trimmed text is not empty, starts with an opening brace or bracket and ends with a
  closing brace or bracket, whichever of the two; otherwise it emits no candidate. The
  closer is not compared with the opener.
\<close>

theorem extract_direct_emits_iff:
  "extract_direct t =
     (if strip t \<noteq> [] \<and> (hd (strip t) = LBRACE \<or> hd (strip t) = LBRACKET)
          \<and> (last (strip t) = RBRACE \<or> last (strip t) = RBRACKET)
      then Inr [\<lparr>raw = strip t, start_pos = 0, end_pos = length t,
                 cand_method = DIRECT_PARSE, confidence = 1\<rparr>]
      else Inr [])"
  by (simp add: extract_direct_def looks_like_json_def strip_strip mk_Candidate_def Let_def)

text \<open>
  The theorem of C3 at a bracketed text between blanks, which yields the candidate, and
  at an object without its closing brace, which yields none.
\<close>

theorem extract_direct_emits_iff_witness:
  \<open>extract_direct (str '' [1, 2] '') =
     Inr [\<lparr>raw = str ''[1, 2]'', start_pos = 0, end_pos = 8,
           cand_method = DIRECT_PARSE, confidence = 1\<rparr>]
   \<and> extract_direct (str ''{"a": 1'') = Inr []\<close>
  using extract_direct_emits_iff [of \<open>str '' [1, 2] ''\<close>]
    extract_direct_emits_iff [of \<open>str ''{"a": 1''\<close>]
  by (simp add: str_def strip_def lstrip_def rstrip_def isspace_def)

text \<open>
  C3 as stated fails: the trimmed text \<open>{]\<close> starts with an opening brace and ends
  with a closing bracket, and \<open>extract_direct\<close> emits a candidate for it.
\<close>

theorem extract_direct_crossed_counterexample:
  \<open>hd (strip (str ''{]'')) = LBRACE \<and> last (strip (str ''{]'')) = RBRACKET
   \<and> extract_direct (str ''{]'') =
       Inr [\<lparr>raw = str ''{]'', start_pos = 0, end_pos = 2,
             cand_method = DIRECT_PARSE, confidence = 1\<rparr>]\<close>
  by (simp add: extract_direct_def looks_like_json_def mk_Candidate_def Let_def
      str_def strip_def lstrip_def rstrip_def isspace_def)

text \<open>Rounding keeps a number of the unit interval in the unit interval.\<close>

lemma binade_lower: "0 < x \<Longrightarrow> 2 powi binade x \<le> x"
proof (induction x rule: binade.induct)
  case (1 x)
  show ?case
  proof (cases "2 \<le> x")
    case True
    with "1.prems" have "2 powi binade (x / 2) \<le> x / 2" by (intro "1.IH"(1)) simp_all
    moreover have "binade x = binade (x / 2) + 1"
      using True "1.prems" by (simp add: binade.simps [of x])
    ultimately show ?thesis by (simp add: power_int_add)
  next
    case False
    show ?thesis
    proof (cases "x < 1")
      case True
      with False "1.prems" have "2 powi binade (2 * x) \<le> 2 * x" by (intro "1.IH"(2)) simp_all
      moreover have "binade x = binade (2 * x) - 1"
        using True False "1.prems" by (simp add: binade.simps [of x])
      ultimately show ?thesis by (simp add: power_int_diff)
    next
      case False
      with \<open>\<not> 2 \<le> x\<close> "1.prems" show ?thesis by (simp add: binade.simps [of x])
    qed
  qed
qed

lemma binade_unit: "0 < x \<Longrightarrow> x \<le> 1 \<Longrightarrow> binade x \<le> 0"
proof (rule ccontr)
  assume x: "0 < x" "x \<le> 1" and "\<not> binade x \<le> 0"
  then have b: "0 < nat (binade x)" "0 \<le> binade x" by simp_all
  have "(2::real) \<le> 2 ^ nat (binade x)" using b(1) by (intro self_le_power) simp_all
  also have "\<dots> = 2 powi binade x" using b(2) by (simp add: power_int_def)
  also have "\<dots> \<le> x" using x(1) by (rule binade_lower)
  finally show False using x(2) by simp
qed

text \<open>
  The equations of \<open>binade\<close> as conditional rules, and the definitions that evaluate
  float arithmetic on numerals.
\<close>

lemma binade_eval:
  "x \<le> 0 \<Longrightarrow> binade x = 0"
  "2 \<le> x \<Longrightarrow> binade x = binade (x / 2) + 1"
  "0 < x \<Longrightarrow> x < 1 \<Longrightarrow> binade x = binade (2 * x) - 1"
  "1 \<le> x \<Longrightarrow> x < 2 \<Longrightarrow> binade x = 0"
  by (simp_all add: binade.simps [of x])

lemmas dbl_defs = to_double_def round_half_even_def binade_eval fadd_def fsub_def fmul_def
  fdiv_def Let_def

lemma round_half_even_le: "x \<le> of_int n \<Longrightarrow> round_half_even x \<le> n"
proof -
  assume a: "x \<le> of_int n"
  then have f: "\<lfloor>x\<rfloor> \<le> n" by linarith
  show ?thesis
  proof (cases "x = of_int \<lfloor>x\<rfloor>")
    case True
    then have "x - of_int \<lfloor>x\<rfloor> < 1 / 2" by simp
    with f show ?thesis by (simp add: round_half_even_def)
  next
    case False
    then have "of_int \<lfloor>x\<rfloor> < x" using of_int_floor_le [of x] by linarith
    with a have "\<lfloor>x\<rfloor> < n" by linarith
    with f show ?thesis by (auto simp: round_half_even_def)
  qed
qed

lemma round_half_even_ge: "of_int n \<le> x \<Longrightarrow> n \<le> round_half_even x"
proof -
  assume "of_int n \<le> x"
  then have "n \<le> \<lfloor>x\<rfloor>" by (simp add: le_floor_iff)
  then show ?thesis by (auto simp: round_half_even_def)
qed

lemma to_double_unit:
  assumes "0 \<le> x" and "x \<le> 1"
  shows "0 \<le> to_double x \<and> to_double x \<le> 1"
proof (cases "x = 0")
  case True
  then show ?thesis by (simp add: to_double_def)
next
  case False
  with assms have x: "0 < x" by simp
  define e where "e = max (binade x) (- 1022)"
  define k where "k = nat (52 - e)"
  have "e \<le> 0" using binade_unit [OF x assms(2)] by (simp add: e_def)
  then have ek: "52 - e = int k" "e - 52 = - int k" by (simp_all add: k_def)
  define r where "r = round_half_even (x * 2 ^ k)"
  have "x * 2 ^ k \<le> of_int (2 ^ k)" using assms(2) by (simp add: mult_left_le_one_le)
  then have r1: "r \<le> 2 ^ k" unfolding r_def by (rule round_half_even_le)
  have "of_int 0 \<le> x * 2 ^ k" using x by simp
  then have r0: "0 \<le> r" unfolding r_def by (rule round_half_even_ge)
  have p1: "(2::real) powi (52 - e) = 2 ^ k" unfolding ek by (rule power_int_of_nat)
  have p2: "(2::real) powi (e - 52) = inverse (2 ^ k)"
    unfolding ek by (simp only: power_int_minus power_int_of_nat)
  have "to_double x = of_int (round_half_even (x * 2 powi (52 - e))) * 2 powi (e - 52)"
    using x by (simp add: to_double_def Let_def e_def)
  then have td: "to_double x = of_int r / 2 ^ k"
    unfolding p1 p2 r_def by (simp add: divide_inverse)
  from r1 have "(of_int r :: real) \<le> of_int (2 ^ k)" by (simp only: of_int_le_iff)
  then have "(of_int r :: real) \<le> 2 ^ k" by simp
  with r0 show ?thesis by (simp add: td)
qed

lemma fmul_unit:
  "0 \<le> a \<Longrightarrow> a \<le> 1 \<Longrightarrow> 0 \<le> b \<Longrightarrow> b \<le> 1 \<Longrightarrow> 0 \<le> fmul a b \<and> fmul a b \<le> 1"
  unfolding fmul_def by (rule to_double_unit) (simp_all add: mult_le_one)

lemma literal_unit:
  "0 \<le> to_double 0.95 \<and> to_double 0.95 \<le> 1"
  "0 \<le> to_double 0.85 \<and> to_double 0.85 \<le> 1"
  "0 \<le> to_double 0.6 \<and> to_double 0.6 \<le> 1"
  "0 \<le> to_double 0.9 \<and> to_double 0.9 \<le> 1"
  "0 \<le> to_double 0.8 \<and> to_double 0.8 \<le> 1"
  "0 \<le> to_double 0.5 \<and> to_double 0.5 \<le> 1"
  by (rule to_double_unit; simp)+

lemma conf_formula:
  "calculate_brace_match_confidence r =
     brace_formula (DQUOTE \<in> set r) (COLON \<in> set r) (length r < 10)"
  by (simp add: calculate_brace_match_confidence_def brace_formula_def Let_def)

lemma brace_formula_range: "0 \<le> brace_formula q c s \<and> brace_formula q c s \<le> 1"
  using literal_unit(4,6) by (simp add: brace_formula_def min_def max_def)

lemma conf_range:
  "0 \<le> calculate_brace_match_confidence r \<and> calculate_brace_match_confidence r \<le> 1"
  unfolding conf_formula by (rule brace_formula_range)

text \<open>The eight values of the formula in floats, and its distance to the exact formula.\<close>

lemma brace_formula_values:
  "brace_formula False False False = 3602879701896397 / 4503599627370496"
  "brace_formula True False False = 1914029841632461 / 2251799813685248"
  "brace_formula False True False = 1914029841632461 / 2251799813685248"
  "brace_formula True True False = 8106479329266893 / 9007199254740992"
  "brace_formula False False True = 6305039478318695 / 9007199254740992"
  "brace_formula True False True = 6755399441055745 / 9007199254740992"
  "brace_formula False True True = 6755399441055745 / 9007199254740992"
  "brace_formula True True True = 7205759403792795 / 9007199254740992"
  by (simp_all add: brace_formula_def dbl_defs)

lemma brace_formula_close:
  "\<bar>brace_formula q c s - brace_formula_exact q c s\<bar> \<le> 1 / 2 ^ 52"
  by (cases q; cases c; cases s) (simp_all add: brace_formula_values brace_formula_exact_def)

text \<open>Every candidate accumulated by the loop is a matched span with the formula's confidence.\<close>

lemma brace_loop_ok:
  "\<forall>c \<in> set acc. brace_ok t c \<Longrightarrow> \<exists>cs. brace_loop t i acc = Inr cs \<and> (\<forall>c \<in> set cs. brace_ok t c)"
proof (induction t i acc rule: brace_loop.induct)
  case (1 t i candidates)
  show ?case
  proof (cases "i < length t \<and> (t ! i = LBRACE \<or> t ! i = LBRACKET)")
    case False
    then show ?thesis using 1 by (auto simp: brace_loop.simps [of t i candidates])
  next
    case True
    show ?thesis
    proof (cases "match_braces t i")
      case None
      then show ?thesis using 1 True by (auto simp: brace_loop.simps [of t i candidates])
    next
      case (Some p)
      obtain s e where p: "p = (s, e)" by (cases p)
      with Some have b: "s = i" "i \<le> e" using match_braces_bounds [of t i s e] by auto
      let ?r = "slice t s (e + 1)"
      let ?c = "\<lparr>raw = ?r, start_pos = s, end_pos = e + 1, cand_method = BRACE_MATCH, confidence = calculate_brace_match_confidence ?r\<rparr>"
      have mk: "mk_Candidate ?r s (e + 1) BRACE_MATCH (calculate_brace_match_confidence ?r) = Inr ?c"
        using conf_range [of ?r] by (simp add: mk_Candidate_def)
      have ok: "brace_ok t ?c"
        using Some p b by (simp add: brace_ok_def conf_formula)
      have "\<exists>cs. brace_loop t (e + 1) (candidates @ [?c]) = Inr cs \<and> (\<forall>c \<in> set cs. brace_ok t c)"
        using "1.IH"(2) [OF _ _ Some p [symmetric] refl mk] True ok "1.prems" by auto
      then show ?thesis
        using True Some p mk by (simp add: brace_loop.simps [of t i candidates] Let_def)
    qed
  qed
qed

text \<open>
  C6. \<open>extract_from_brace_matching\<close> raises nothing, and every candidate it returns
  has the confidence of the formula: base \<open>0.8\<close>, plus \<open>0.05\<close> if the span contains a
  double quote, plus \<open>0.05\<close> if it contains a colon, minus \<open>0.1\<close> if the span is shorter
  than 10 characters, clamped into \<open>[0.5, 0.9]\<close>. The confidence is the formula computed
  in Python floats, step by step, and so within \<open>2 ^ -52\<close> of the formula's exact value;
  the span is the one \<open>_match_braces\<close> matched at its start, and the method is
  \<open>brace_match\<close>.
\<close>

theorem brace_match_confidence_formula:
  "\<exists>cs. extract_from_brace_matching t = Inr cs \<and>
     (\<forall>c \<in> set cs.
        confidence c =
          brace_formula (DQUOTE \<in> set (raw c)) (COLON \<in> set (raw c)) (length (raw c) < 10)
        \<and> \<bar>confidence c
             - min 0.9 (max 0.5 (0.8 + (if DQUOTE \<in> set (raw c) then 0.05 else 0)
                                 + (if COLON \<in> set (raw c) then 0.05 else 0)
                                 - (if length (raw c) < 10 then 0.1 else 0)))\<bar> \<le> 1 / 2 ^ 52
        \<and> cand_method c = BRACE_MATCH
        \<and> raw c = slice t (start_pos c) (end_pos c)
        \<and> match_braces t (start_pos c) = Some (start_pos c, end_pos c - 1))"
proof -
  obtain cs where cs: "brace_loop t 0 [] = Inr cs" "\<forall>c \<in> set cs. brace_ok t c"
    using brace_loop_ok [of "[]" t 0] by auto
  have "\<bar>confidence c
          - min 0.9 (max 0.5 (0.8 + (if DQUOTE \<in> set (raw c) then 0.05 else 0)
                              + (if COLON \<in> set (raw c) then 0.05 else 0)
                              - (if length (raw c) < 10 then 0.1 else 0)))\<bar> \<le> 1 / 2 ^ 52"
    if "brace_ok t c" for c
    using that
      brace_formula_close [of "DQUOTE \<in> set (raw c)" "COLON \<in> set (raw c)" "length (raw c) < 10"]
    by (simp only: brace_ok_def brace_formula_exact_def)
  with cs show ?thesis
    by (simp add: extract_from_brace_matching_def brace_ok_def)
qed

lemma ebm_example:
  \<open>extract_from_brace_matching (str ''x {"a": 10} [1, 2, 3, 4] {"k": "v"} {]'') =
     Inr [\<lparr>raw = str ''{"a": 10}'', start_pos = 2, end_pos = 11,
            cand_method = BRACE_MATCH, confidence = 7205759403792795 / 9007199254740992\<rparr>,
          \<lparr>raw = str ''[1, 2, 3, 4]'', start_pos = 12, end_pos = 24,
            cand_method = BRACE_MATCH, confidence = 3602879701896397 / 4503599627370496\<rparr>,
          \<lparr>raw = str ''{"k": "v"}'', start_pos = 25, end_pos = 35,
            cand_method = BRACE_MATCH, confidence = 8106479329266893 / 9007199254740992\<rparr>]\<close>
  by (simp add: extract_from_brace_matching_def brace_loop.simps match_braces_def
      mk_Candidate_def conf_formula brace_formula_values slice_def str_def Let_def)

text \<open>
  The theorem of C6 at a text with three matched spans and an unmatched brace. The
  object of nine characters has a quote and a colon: its confidence is the float
  \<open>0.8000000000000002\<close>, which is \<open>0.8 + 0.05 + 0.05 - 0.1\<close> in floats and not the float
  \<open>0.8\<close>. The array has neither and is longer: its confidence is the float \<open>0.8\<close>. The
  object of ten characters has both: \<open>0.8 + 0.05 + 0.05\<close> is the float
  \<open>0.9000000000000001\<close>, which the clamp brings down to the float \<open>0.9\<close>.
\<close>

theorem brace_match_confidence_formula_witness:
  \<open>extract_from_brace_matching (str ''x {"a": 10} [1, 2, 3, 4] {"k": "v"} {]'') =
     Inr [\<lparr>raw = str ''{"a": 10}'', start_pos = 2, end_pos = 11,
            cand_method = BRACE_MATCH, confidence = 7205759403792795 / 9007199254740992\<rparr>,
          \<lparr>raw = str ''[1, 2, 3, 4]'', start_pos = 12, end_pos = 24,
            cand_method = BRACE_MATCH, confidence = 3602879701896397 / 4503599627370496\<rparr>,
          \<lparr>raw = str ''{"k": "v"}'', start_pos = 25, end_pos = 35,
            cand_method = BRACE_MATCH, confidence = 8106479329266893 / 9007199254740992\<rparr>]
   \<and> brace_formula True True True = 7205759403792795 / 9007199254740992
   \<and> fsub (fadd (fadd (to_double 0.8) (to_double 0.05)) (to_double 0.05)) (to_double 0.1)
       = 7205759403792795 / 9007199254740992
   \<and> \<bar>7205759403792795 / 9007199254740992 - (0.8 :: real)\<bar> \<le> 1 / 2 ^ 52
   \<and> brace_formula False False False = 3602879701896397 / 4503599627370496
   \<and> to_double 0.8 = 3602879701896397 / 4503599627370496
   \<and> brace_formula True True False = 8106479329266893 / 9007199254740992
   \<and> to_double 0.9 = 8106479329266893 / 9007199254740992
   \<and> fadd (fadd (to_double 0.8) (to_double 0.05)) (to_double 0.05)
       = 4053239664633447 / 4503599627370496\<close>
  using brace_match_confidence_formula [of \<open>str ''x {"a": 10} [1, 2, 3, 4] {"k": "v"} {]''\<close>]
  by (simp add: ebm_example brace_formula_values dbl_defs)

section \<open>Properties of the repairer\<close>

lemmas repair_defs = repair_json_def repair_pass_def remove_trailing_commas_def trailing_comma_at_def
     normalize_quotes_def normalize_quotes_loop.simps fix_unquoted_keys_def unquoted_key_at_def cleanup_whitespace_def
     remove_char_def zero_width_chars_def is_truncated_json_def complete_truncated_def
     strip_def lstrip_def rstrip_def isspace_def is_ident_start_def is_ident_char_def is_json_string_quote_def Let_def

lemma repair_loop_numeral:
  "repair_loop (numeral k) current repairs =
     (case repair_pass current of
        (new, applied) \<Rightarrow>
          if new = current then (new, repairs @ applied)
          else repair_loop (pred_numeral k) new (repairs @ applied))"
  by (simp add: numeral_eq_Suc)

text \<open>
  When some pass within the budget leaves the text unchanged, the loop stops there, and
  the text it returns is a fixed point of the pass.
\<close>

lemma repair_loop_reaches_fixed_point:
  "k < n \<Longrightarrow> fst (repair_pass (((\<lambda>x. fst (repair_pass x)) ^^ k) t)) = ((\<lambda>x. fst (repair_pass x)) ^^ k) t \<Longrightarrow>
   fst (repair_pass (fst (repair_loop n t rs))) = fst (repair_loop n t rs)"
proof (induction n arbitrary: k t rs)
  case 0
  then show ?case by simp
next
  case (Suc n)
  obtain new applied where p: "repair_pass t = (new, applied)" by (cases "repair_pass t")
  show ?case
  proof (cases "new = t")
    case True
    then show ?thesis using p by simp
  next
    case False
    with p Suc.prems(2) have "k \<noteq> 0" by (cases k) auto
    then obtain j where k: "k = Suc j" by (cases k) auto
    with Suc.prems(1) have j: "j < n" by simp
    from Suc.prems(2) have "fst (repair_pass (((\<lambda>x. fst (repair_pass x)) ^^ j) new))
        = ((\<lambda>x. fst (repair_pass x)) ^^ j) new"
      using p unfolding k funpow_Suc_right by simp
    from Suc.IH [OF j this] show ?thesis using p False by simp
  qed
qed

lemma repair_json_not_truncated:
  "\<not> is_truncated (repair_json t n) \<Longrightarrow>
     repaired (repair_json t n) = fst (repair_loop n t []) \<and>
     \<not> is_truncated_json (fst (repair_loop n t []))"
  by (auto simp: repair_json_def split: prod.splits if_splits)

lemma repair_json_fixed:
  assumes "fst (repair_pass c) = c" and "\<not> is_truncated_json c" and "0 < m"
  shows "repaired (repair_json c m) = c"
proof -
  from \<open>0 < m\<close> obtain k where m: "m = Suc k" by (cases m) auto
  obtain a where "repair_pass c = (c, a)" using assms(1) by (cases "repair_pass c") auto
  then have "repair_loop m c [] = (c, a)" by (simp add: m)
  with assms(2) show ?thesis by (simp add: repair_json_def)
qed

text \<open>
  C2, as amended. A second application of \<open>repair_json\<close>, with a budget of at least
  one iteration, returns the repaired text of the first in two cases. First, when the
  first application does not flag truncation and one of its passes, within the budget,
  left the text unchanged: the loop then stopped early. Second, whether or not the
  first application flagged truncation, when its repaired text is left unchanged by a
  rewrite pass and is not itself truncated.
\<close>

theorem repair_json_idempotent_at_fixed_point:
  assumes "0 < m"
  shows "(\<not> is_truncated (repair_json t n)
          \<and> (\<exists>k<n. fst (repair_pass (((\<lambda>x. fst (repair_pass x)) ^^ k) t))
                      = ((\<lambda>x. fst (repair_pass x)) ^^ k) t)
          \<longrightarrow> repaired (repair_json (repaired (repair_json t n)) m)
                = repaired (repair_json t n))
       \<and> (fst (repair_pass (repaired (repair_json t n))) = repaired (repair_json t n)
          \<and> \<not> is_truncated_json (repaired (repair_json t n))
          \<longrightarrow> repaired (repair_json (repaired (repair_json t n)) m)
                = repaired (repair_json t n))"
proof (intro conjI impI)
  assume a: "\<not> is_truncated (repair_json t n)
          \<and> (\<exists>k<n. fst (repair_pass (((\<lambda>x. fst (repair_pass x)) ^^ k) t))
                      = ((\<lambda>x. fst (repair_pass x)) ^^ k) t)"
  then obtain k where k: "k < n"
    "fst (repair_pass (((\<lambda>x. fst (repair_pass x)) ^^ k) t)) = ((\<lambda>x. fst (repair_pass x)) ^^ k) t"
    by blast
  from a have r: "repaired (repair_json t n) = fst (repair_loop n t [])"
    and nt: "\<not> is_truncated_json (repaired (repair_json t n))"
    using repair_json_not_truncated [of t n] by simp_all
  have "fst (repair_pass (repaired (repair_json t n))) = repaired (repair_json t n)"
    unfolding r by (rule repair_loop_reaches_fixed_point [OF k])
  then show "repaired (repair_json (repaired (repair_json t n)) m) = repaired (repair_json t n)"
    using nt assms by (rule repair_json_fixed)
next
  assume "fst (repair_pass (repaired (repair_json t n))) = repaired (repair_json t n)
          \<and> \<not> is_truncated_json (repaired (repair_json t n))"
  then show "repaired (repair_json (repaired (repair_json t n)) m) = repaired (repair_json t n)"
    using assms by (intro repair_json_fixed) simp_all
qed

lemma repair_comma_example:
  \<open>repair_json (str ''{"a": 1,}'') 5 =
     \<lparr>repaired = str ''{"a": 1}'', repairs_applied = [''trailing_comma_removal''],
       is_truncated = False\<rparr>\<close>
  by (simp add: repair_defs str_def repair_loop_numeral)

lemma repair_pass_example: \<open>repair_pass (str ''{"a": 1}'') = (str ''{"a": 1}'', [])\<close>
  by (simp add: repair_defs str_def)

lemma repair_pass_comma_example:
  \<open>fst (repair_pass (str ''{"a": 1,}'')) = str ''{"a": 1}''\<close>
  by (simp add: repair_defs str_def)

lemma repair_open_string_example:
  \<open>repair_json (str ''{"key": "value'') 5 =
     \<lparr>repaired = str ''{"key": "value"}'',
       repairs_applied = [''string_completion'', ''brace_completion''], is_truncated = True\<rparr>\<close>
  by (simp add: repair_defs str_def repair_loop_numeral)

lemma repair_closed_string_example:
  \<open>fst (repair_pass (str ''{"key": "value"}'')) = str ''{"key": "value"}''
   \<and> \<not> is_truncated_json (str ''{"key": "value"}'')\<close>
  by (simp add: repair_defs str_def)

text \<open>
  The theorem of C2 at two texts. At \<open>{"a": 1,}\<close> the first pass removes the comma, the
  second pass changes nothing, truncation is not flagged, and the second repair returns
  the same text. At \<open>{"key": "value\<close> the first repair flags truncation and closes the
  string and the brace; the result is unchanged by a pass and not truncated, and the
  second repair returns it.
\<close>

theorem repair_json_idempotent_at_fixed_point_witness:
  \<open>(0 :: nat) < 5
   \<and> \<not> is_truncated (repair_json (str ''{"a": 1,}'') 5)
   \<and> fst (repair_pass (fst (repair_pass (str ''{"a": 1,}'')))) = fst (repair_pass (str ''{"a": 1,}''))
   \<and> repaired (repair_json (str ''{"a": 1,}'') 5) = str ''{"a": 1}''
   \<and> repaired (repair_json (repaired (repair_json (str ''{"a": 1,}'') 5)) 5) = str ''{"a": 1}''
   \<and> is_truncated (repair_json (str ''{"key": "value'') 5)
   \<and> repaired (repair_json (str ''{"key": "value'') 5) = str ''{"key": "value"}''
   \<and> fst (repair_pass (str ''{"key": "value"}'')) = str ''{"key": "value"}''
   \<and> \<not> is_truncated_json (str ''{"key": "value"}'')
   \<and> repaired (repair_json (repaired (repair_json (str ''{"key": "value'') 5)) 5)
       = str ''{"key": "value"}''\<close>
proof -
  have m: "(0 :: nat) < 5" by simp
  have a1: \<open>\<not> is_truncated (repair_json (str ''{"a": 1,}'') 5)\<close>
    by (simp add: repair_comma_example)
  have a2: \<open>fst (repair_pass (fst (repair_pass (str ''{"a": 1,}''))))
      = fst (repair_pass (str ''{"a": 1,}''))\<close>
    by (simp add: repair_pass_comma_example repair_pass_example)
  have a3: \<open>\<exists>k<5. fst (repair_pass (((\<lambda>x. fst (repair_pass x)) ^^ k) (str ''{"a": 1,}'')))
      = ((\<lambda>x. fst (repair_pass x)) ^^ k) (str ''{"a": 1,}'')\<close>
    using a2 by (intro exI [of _ 1]) simp
  have b1: \<open>fst (repair_pass (repaired (repair_json (str ''{"key": "value'') 5)))
      = repaired (repair_json (str ''{"key": "value'') 5)\<close>
    and b2: \<open>\<not> is_truncated_json (repaired (repair_json (str ''{"key": "value'') 5))\<close>
    using repair_closed_string_example by (simp_all add: repair_open_string_example)
  from repair_json_idempotent_at_fixed_point [OF m, of \<open>str ''{"a": 1,}''\<close> 5] a1 a3
  have c1: \<open>repaired (repair_json (repaired (repair_json (str ''{"a": 1,}'') 5)) 5)
      = repaired (repair_json (str ''{"a": 1,}'') 5)\<close>
    by blast
  from repair_json_idempotent_at_fixed_point [OF m, of \<open>str ''{"key": "value''\<close> 5] b1 b2
  have c2: \<open>repaired (repair_json (repaired (repair_json (str ''{"key": "value'') 5)) 5)
      = repaired (repair_json (str ''{"key": "value'') 5)\<close>
    by blast
  from a1 a2 c1 c2 repair_closed_string_example show ?thesis
    by (simp add: repair_comma_example repair_open_string_example)
qed

text \<open>
  Some condition of this kind is needed even when truncation is not flagged: the five
  passes on \<open>{"a": 1,,,,,,,}\<close> remove one comma each and exhaust the budget, and a
  second repair removes the two commas that are left.
\<close>

lemma repair_json_budget_example:
  \<open>repair_json (str ''{"a": 1,,,,,,,}'') 5 =
     \<lparr>repaired = str ''{"a": 1,,}'',
       repairs_applied = [''trailing_comma_removal'', ''trailing_comma_removal'',
         ''trailing_comma_removal'', ''trailing_comma_removal'', ''trailing_comma_removal''],
       is_truncated = False\<rparr>
   \<and> repaired (repair_json (str ''{"a": 1,,}'') 5) = str ''{"a": 1}''\<close>
  by (simp add: repair_defs str_def repair_loop_numeral)

lemma repair_open_example:
  \<open>repair_json (str ''{"a": 1,'') 5 =
     \<lparr>repaired = str ''{"a": 1,}'', repairs_applied = [''brace_completion''],
       is_truncated = True\<rparr>\<close>
  by (simp add: repair_defs str_def repair_loop_numeral)

text \<open>
  C2 as stated fails: the repair of \<open>{"a": 1,\<close> only appends the missing brace, and
  the repair of the result then removes the comma that now precedes the brace.
\<close>

theorem repair_json_not_idempotent_counterexample:
  \<open>repaired (repair_json (str ''{"a": 1,'') 5) = str ''{"a": 1,}''
   \<and> repaired (repair_json (repaired (repair_json (str ''{"a": 1,'') 5)) 5) = str ''{"a": 1}''
   \<and> repaired (repair_json (repaired (repair_json (str ''{"a": 1,'') 5)) 5)
       \<noteq> repaired (repair_json (str ''{"a": 1,'') 5)\<close>
  by (simp add: repair_open_example repair_comma_example) (simp add: str_def)

lemma truncated_loop_counts:
  "truncated_loop cs ob ok ins esc =
     (case outside_strings cs ins esc of
        (out, i, e) \<Rightarrow>
          (ob + int (count_list out LBRACE) - int (count_list out RBRACE),
           ok + int (count_list out LBRACKET) - int (count_list out RBRACKET), i, e))"
  by (induction cs arbitrary: ob ok ins esc) (auto split: prod.splits)

lemma pop_count:
  "st \<noteq> [] \<Longrightarrow> hd st = c \<Longrightarrow> int (count_list (tl st) c) = int (count_list st c) - 1"
  by (cases st) auto

lemma pop_count_other:
  "st \<noteq> [] \<Longrightarrow> hd st = c \<Longrightarrow> d \<noteq> c \<Longrightarrow> count_list (tl st) d = count_list st d"
  by (cases st) auto

lemma loops_related:
  "ob \<le> int (count_list st RBRACE) \<Longrightarrow> ok \<le> int (count_list st RBRACKET) \<Longrightarrow>
   truncated_loop cs ob ok ins esc = (ob', ok', i1, e1) \<Longrightarrow>
   complete_loop cs st ins esc = (st', i2, e2) \<Longrightarrow>
   ob' \<le> int (count_list st' RBRACE) \<and> ok' \<le> int (count_list st' RBRACKET)
     \<and> i1 = i2 \<and> e1 = e2"
proof (induction cs arbitrary: ob ok st ins esc)
  case Nil
  then show ?case by simp
next
  case (Cons c cs)
  show ?case
  proof (cases "esc \<or> c = BACKSLASH \<or> c = DQUOTE \<or> ins")
    case True
    then show ?thesis using Cons.prems Cons.IH [of ob st ok]
      by (auto split: if_splits)
  next
    case False
    then have f: "\<not> esc" "c \<noteq> BACKSLASH" "c \<noteq> DQUOTE" "\<not> ins" by auto
    consider (lb) "c = LBRACE" | (rb) "c = RBRACE" | (lk) "c = LBRACKET" | (rk) "c = RBRACKET"
      | (other) "c \<noteq> LBRACE" "c \<noteq> RBRACE" "c \<noteq> LBRACKET" "c \<noteq> RBRACKET" by blast
    then show ?thesis
    proof cases
      case lb
      then show ?thesis using f Cons.prems Cons.IH [of "ob + 1" "RBRACE # st" ok ins esc]
        by simp
    next
      case rb
      show ?thesis
      proof (cases "st \<noteq> [] \<and> hd st = RBRACE")
        case True
        then show ?thesis using rb f Cons.prems Cons.IH [of "ob - 1" "tl st" ok ins esc]
          by (simp add: pop_count pop_count_other)
      next
        case False
        then show ?thesis using rb f Cons.prems Cons.IH [of "ob - 1" "st" ok ins esc]
          by auto
      qed
    next
      case lk
      then show ?thesis using f Cons.prems Cons.IH [of ob "RBRACKET # st" "ok + 1" ins esc]
        by simp
    next
      case rk
      show ?thesis
      proof (cases "st \<noteq> [] \<and> hd st = RBRACKET")
        case True
        then show ?thesis using rk f Cons.prems Cons.IH [of ob "tl st" "ok - 1" ins esc]
          by (simp add: pop_count pop_count_other)
      next
        case False
        then show ?thesis using rk f Cons.prems Cons.IH [of ob "st" "ok - 1" ins esc]
          by auto
      qed
    next
      case other
      then show ?thesis using f Cons.prems Cons.IH [of ob st ok ins esc] by simp
    qed
  qed
qed

lemma is_truncated_imp_replay: "is_truncated_json t \<Longrightarrow> replay_leaves_open t"
proof -
  assume a: "is_truncated_json t"
  obtain ob ok i1 e1 where tl: "truncated_loop (strip t) 0 0 False False = (ob, ok, i1, e1)"
    by (cases "truncated_loop (strip t) 0 0 False False") auto
  obtain st i2 e2 where cl: "complete_loop (strip t) [] False False = (st, i2, e2)"
    by (cases "complete_loop (strip t) [] False False") auto
  from loops_related [OF _ _ tl cl]
  have r: "ob \<le> int (count_list st RBRACE)" "ok \<le> int (count_list st RBRACKET)" "i1 = i2" "e1 = e2"
    by simp_all
  from a tl have "i1 \<or> ob > 0 \<or> ok > 0 \<or> e1"
    by (auto simp: is_truncated_json_def Let_def split: if_splits)
  with r have "i2 \<or> st \<noteq> [] \<or> e2" by auto
  with cl show ?thesis by (simp add: replay_leaves_open_def)
qed

lemma is_truncated_blank: "strip t = [] \<Longrightarrow> \<not> is_truncated_json t"
  by (simp add: is_truncated_json_def)

lemma is_truncated_counts:
  "is_truncated_json t \<longleftrightarrow>
     (case outside_strings (strip t) False False of
        (out, in_string, escape_next) \<Rightarrow>
          in_string \<or> escape_next
          \<or> count_list out RBRACE < count_list out LBRACE
          \<or> count_list out RBRACKET < count_list out LBRACKET)"
  by (cases "strip t = []")
     (auto simp: is_truncated_json_def truncated_loop_counts Let_def split: prod.splits)

text \<open>
  C4, as amended. \<open>is_truncated_json\<close> is true exactly when the replay over the
  trimmed text ends inside a string, or on a live escape, or has read, outside strings,
  more opening than closing braces or more opening than closing brackets. Whenever it is
  true the stack replay leaves an open string, a non-empty stack or a live escape (the
  converse fails). It is false for every empty or whitespace-only text.
\<close>

theorem is_truncated_json_characterised:
  "(is_truncated_json t \<longleftrightarrow>
      (case outside_strings (strip t) False False of
         (out, in_string, escape_next) \<Rightarrow>
           in_string \<or> escape_next
           \<or> count_list out RBRACE < count_list out LBRACE
           \<or> count_list out RBRACKET < count_list out LBRACKET))
   \<and> (is_truncated_json t \<longrightarrow> replay_leaves_open t)
   \<and> (strip t = [] \<longrightarrow> \<not> is_truncated_json t)"
  using is_truncated_counts [of t] is_truncated_imp_replay [of t] is_truncated_blank [of t]
  by blast

lemma trunc_ex1: \<open>is_truncated_json (str ''{"a": [1, 2}'')\<close>
  by (simp add: repair_defs str_def)

lemma trunc_ex2: \<open>strip (str ''  '') = [] \<close>
  by (simp add: repair_defs str_def)

text \<open>
  The theorem of C4 at \<open>{"a": [1, 2}\<close>, flagged by the bracket counter, and at a
  text of two blanks.
\<close>

theorem is_truncated_json_characterised_witness:
  \<open>is_truncated_json (str ''{"a": [1, 2}'') \<and> replay_leaves_open (str ''{"a": [1, 2}'')
   \<and> strip (str ''  '') = [] \<and> \<not> is_truncated_json (str ''  '')\<close>
  using is_truncated_json_characterised [of \<open>str ''{"a": [1, 2}''\<close>]
    is_truncated_json_characterised [of \<open>str ''  ''\<close>] trunc_ex1 trunc_ex2
  by simp

text \<open>
  C4 as stated fails: in \<open>}{\<close> the opening brace is still open at the end of the
  replay, and \<open>is_truncated_json\<close> returns false, its brace counter being back at 0.
\<close>

theorem is_truncated_json_stack_counterexample:
  \<open>\<not> is_truncated_json (str ''}{'') \<and> replay_leaves_open (str ''}{'')
   \<and> complete_loop (strip (str ''}{'')) [] False False = ([RBRACE], False, False)\<close>
  by (simp add: repair_defs replay_leaves_open_def str_def)

section \<open>Properties of the scanner\<close>

lemma str_body_loop:
  "str_body s \<Longrightarrow> stack \<noteq> [] \<Longrightarrow>
   match_loop (s @ DQUOTE # rest) i stack True False
     = match_loop rest (i + length s + 1) stack False False"
  by (induction s arbitrary: i rule: str_body.induct) auto

lemma paired_loop:
  "paired w \<Longrightarrow> stack \<noteq> [] \<Longrightarrow>
   match_loop (w @ rest) i stack False False = match_loop rest (i + length w) stack False False"
proof (induction w arbitrary: i stack rest rule: paired.induct)
  case p_nil
  then show ?case by simp
next
  case (p_char c w)
  then show ?case by (simp add: plain_def)
next
  case (p_esc w c)
  then show ?case by simp
next
  case (p_str s w)
  then show ?case by (simp add: str_body_loop add.assoc)
next
  case (p_brace u w)
  have "match_loop ((LBRACE # u @ RBRACE # w) @ rest) i stack False False
        = match_loop (u @ RBRACE # w @ rest) (i + 1) (LBRACE # stack) False False"
    using p_brace.prems by simp
  also have "\<dots> = match_loop (RBRACE # w @ rest) (i + 1 + length u) (LBRACE # stack) False False"
    by (rule p_brace.IH(1)) simp
  also have "\<dots> = match_loop (w @ rest) (i + 1 + length u + 1) stack False False"
    by simp
  also have "\<dots> = match_loop rest (i + 1 + length u + 1 + length w) stack False False"
    by (rule p_brace.IH(2)) (rule p_brace.prems)
  finally show ?case by (simp add: add.assoc)
next
  case (p_bracket u w)
  have "match_loop ((LBRACKET # u @ RBRACKET # w) @ rest) i stack False False
        = match_loop (u @ RBRACKET # w @ rest) (i + 1) (LBRACKET # stack) False False"
    using p_bracket.prems by simp
  also have "\<dots> = match_loop (RBRACKET # w @ rest) (i + 1 + length u) (LBRACKET # stack) False False"
    by (rule p_bracket.IH(1)) simp
  also have "\<dots> = match_loop (w @ rest) (i + 1 + length u + 1) stack False False"
    by simp
  also have "\<dots> = match_loop rest (i + 1 + length u + 1 + length w) stack False False"
    by (rule p_bracket.IH(2)) (rule p_bracket.prems)
  finally show ?case by (simp add: add.assoc)
qed

lemma str_body_open:
  "str_body s \<Longrightarrow> stack \<noteq> [] \<Longrightarrow>
   match_loop (s @ rest) i stack True False = match_loop rest (i + length s) stack True False"
  by (induction s arbitrary: i rule: str_body.induct) auto

lemma crossed_loop:
  "crossed x v \<Longrightarrow> opener x \<Longrightarrow> match_loop v i (x # stack) False False = None"
proof (induction x v arbitrary: i stack rule: crossed.induct)
  case (cr_here w c x rest)
  have "match_loop (w @ c # rest) i (x # stack) False False
        = match_loop (c # rest) (i + length w) (x # stack) False False"
    using cr_here.hyps(1) by (rule paired_loop) simp
  also have "\<dots> = None"
    using cr_here.hyps(2,3) cr_here.prems by (auto simp: closer_def closer_of_def opener_def)
  finally show ?case .
next
  case (cr_inner w y v x)
  have "match_loop (w @ y # v) i (x # stack) False False
        = match_loop (y # v) (i + length w) (x # stack) False False"
    using cr_inner.hyps(1) by (rule paired_loop) simp
  also have "\<dots> = match_loop v (i + length w + 1) (y # x # stack) False False"
    using cr_inner.hyps(2) by (auto simp: opener_def)
  also have "\<dots> = None"
    using cr_inner.hyps(2) by (rule cr_inner.IH)
  finally show ?case .
qed

lemma dangling_loop:
  "dangling v \<Longrightarrow> stack \<noteq> [] \<Longrightarrow>
   \<exists>j st. match_loop v i stack False False = Some (j, st) \<and> st \<noteq> []"
proof (induction v arbitrary: i stack rule: dangling.induct)
  case (dg_end w)
  then show ?case using paired_loop [of w stack "[]" i] by simp
next
  case (dg_escape w)
  then show ?case using paired_loop [of w stack "[BACKSLASH]" i] by simp
next
  case (dg_string w s)
  then show ?case
    using paired_loop [of w stack "DQUOTE # s" i]
      str_body_open [of s stack "[]" "i + length w + 1"] by simp
next
  case (dg_string_escape w s)
  then show ?case
    using paired_loop [of w stack "DQUOTE # s @ [BACKSLASH]" i]
      str_body_open [of s stack "[BACKSLASH]" "i + length w + 1"] by simp
next
  case (dg_inner w y v)
  have "match_loop (w @ y # v) i stack False False
        = match_loop (y # v) (i + length w) stack False False"
    using dg_inner.hyps(1) dg_inner.prems by (rule paired_loop)
  also have "\<dots> = match_loop v (i + length w + 1) (y # stack) False False"
    using dg_inner.hyps(2) dg_inner.prems by (auto simp: opener_def)
  finally show ?case using dg_inner.IH [of "y # stack" "i + length w + 1"] by simp
qed

lemma match_braces_at_opener:
  "opener x \<Longrightarrow>
   match_braces (pre @ x # v) (length pre) =
     (case match_loop v (length pre + 1) [x] False False of
        None \<Rightarrow> None
      | Some (i, stack) \<Rightarrow> if stack = [] then Some (length pre, i - 1) else None)"
  by (auto simp: match_braces_def opener_def nth_append)

lemma match_loop_empty_stack: "match_loop cs i [] a b = Some (i, [])"
  by (cases cs) auto

lemma match_braces_paired:
  assumes "opener x" and "paired u"
  shows "match_braces (pre @ x # u @ closer_of x # rest) (length pre)
           = Some (length pre, length pre + length u + 1)"
proof -
  have "match_loop (u @ closer_of x # rest) (length pre + 1) [x] False False
        = match_loop (closer_of x # rest) (length pre + 1 + length u) [x] False False"
    using assms(2) by (rule paired_loop) simp
  also have "\<dots> = Some (length pre + 1 + length u + 1, [])"
    using assms(1) by (auto simp: opener_def closer_of_def match_loop_empty_stack)
  finally show ?thesis using assms(1) by (simp add: match_braces_at_opener)
qed

lemma match_braces_crossed:
  assumes "opener x" and "crossed x v"
  shows "match_braces (pre @ x # v) (length pre) = None"
  using crossed_loop [OF assms(2,1), of "length pre + 1" "[]"] assms(1)
  by (simp add: match_braces_at_opener)

lemma match_braces_dangling:
  assumes "opener x" and "dangling v"
  shows "match_braces (pre @ x # v) (length pre) = None"
  using dangling_loop [OF assms(2), of "[x]" "length pre + 1"] assms(1)
  by (auto simp: match_braces_at_opener)

text \<open>
  C5. For an opener at index \<open>length pre\<close> followed by properly paired text (nested
  groups, string literals with brackets and escaped quotes in them) and its own closer,
  \<open>_match_braces\<close> returns the span from the opener to the inclusive offset of that
  closer. When a closer meets an innermost opener of the other kind, or the text ends
  with an opener still open, it returns no match.
\<close>

theorem match_braces_correct:
  "(opener x \<and> paired u \<longrightarrow>
      match_braces (pre @ x # u @ closer_of x # rest) (length pre)
        = Some (length pre, length pre + length u + 1))
   \<and> (opener x \<and> crossed x v \<longrightarrow> match_braces (pre @ x # v) (length pre) = None)
   \<and> (opener x \<and> dangling v \<longrightarrow> match_braces (pre @ x # v) (length pre) = None)"
  using match_braces_paired [of x u pre rest] match_braces_crossed [of x v pre]
    match_braces_dangling [of x v pre]
  by blast

lemma paired_example: \<open>paired (str ''"}": [1]'')\<close>
proof -
  have s: "str_body [RBRACE]" by (intro str_body.intros) simp_all
  have "paired [49]" by (simp add: p_char p_nil plain_def)
  then have "paired (LBRACKET # [49] @ RBRACKET # [])" using p_nil by (rule p_bracket)
  then have "paired (COLON # 32 # LBRACKET # [49] @ RBRACKET # [])"
    by (simp add: p_char plain_def)
  with s have "paired (DQUOTE # [RBRACE] @ DQUOTE # COLON # 32 # LBRACKET # [49] @ RBRACKET # [])"
    by (rule p_str)
  then show ?thesis by (simp add: str_def)
qed

lemma paired_escape_example: "paired [DQUOTE, 97, BACKSLASH, DQUOTE, RBRACE, DQUOTE]"
proof -
  have "str_body [RBRACE]" by (intro str_body.intros) simp_all
  then have "str_body (BACKSLASH # DQUOTE # [RBRACE])" by (rule sb_esc)
  then have "str_body [97, BACKSLASH, DQUOTE, RBRACE]" by (simp add: sb_char)
  then have "paired (DQUOTE # [97, BACKSLASH, DQUOTE, RBRACE] @ DQUOTE # [])"
    using p_nil by (rule p_str)
  then show ?thesis by simp
qed

lemma crossed_example: \<open>crossed LBRACE (str ''[}'')\<close>
proof -
  have c: "closer RBRACE" "RBRACE \<noteq> closer_of LBRACKET" "opener LBRACKET"
    by (simp_all add: closer_def closer_of_def opener_def)
  have "crossed LBRACKET ([] @ RBRACE # [])"
    using p_nil c(1,2) by (rule cr_here)
  with p_nil c(3) have "crossed LBRACE ([] @ LBRACKET # [] @ RBRACE # [])"
    by (rule cr_inner)
  then show ?thesis by (simp add: str_def)
qed

lemma dangling_example: \<open>dangling (str ''"a'')\<close>
proof -
  have "str_body [97]" by (intro str_body.intros) simp_all
  with p_nil have "dangling ([] @ DQUOTE # [97])" by (rule dg_string)
  then show ?thesis by (simp add: str_def)
qed

text \<open>
  The theorem of C5 at an object with a closing brace inside a string, at an array
  with an escaped quote inside a string, at the crossed text \<open>{[}\<close> and at the
  dangling text \<open>{"a\<close>.
\<close>

theorem match_braces_correct_witness:
  \<open>opener LBRACE \<and> paired (str ''"}": [1]'')
   \<and> match_braces (str ''a{"}": [1]}b'') 1 = Some (1, 10)
   \<and> opener LBRACKET \<and> paired [DQUOTE, 97, BACKSLASH, DQUOTE, RBRACE, DQUOTE]
   \<and> match_braces [LBRACKET, DQUOTE, 97, BACKSLASH, DQUOTE, RBRACE, DQUOTE, RBRACKET, 98] 0
       = Some (0, 7)
   \<and> crossed LBRACE (str ''[}'') \<and> match_braces (str ''{[}'') 0 = None
   \<and> dangling (str ''"a'') \<and> match_braces (str ''{"a'') 0 = None\<close>
proof -
  have o: "opener LBRACE" "opener LBRACKET" by (simp_all add: opener_def)
  from match_braces_correct [of LBRACE \<open>str ''"}": [1]''\<close> \<open>str ''a''\<close> \<open>str ''b''\<close>]
    o paired_example
  have 1: \<open>match_braces (str ''a{"}": [1]}b'') 1 = Some (1, 10)\<close>
    by (simp add: str_def closer_of_def)
  from match_braces_correct
         [of LBRACKET "[DQUOTE, 97, BACKSLASH, DQUOTE, RBRACE, DQUOTE]" "[]" "[98]"]
    o paired_escape_example
  have 2: "match_braces
             [LBRACKET, DQUOTE, 97, BACKSLASH, DQUOTE, RBRACE, DQUOTE, RBRACKET, 98] 0
           = Some (0, 7)"
    by (simp add: closer_of_def)
  from match_braces_correct [of LBRACE _ "[]" _ \<open>str ''[}''\<close>] o crossed_example
  have 3: \<open>match_braces (str ''{[}'') 0 = None\<close>
    by (simp add: str_def)
  from match_braces_correct [of LBRACE _ "[]" _ \<open>str ''"a''\<close>] o dangling_example
  have 4: \<open>match_braces (str ''{"a'') 0 = None\<close>
    by (simp add: str_def)
  from o paired_example paired_escape_example crossed_example dangling_example 1 2 3 4
  show ?thesis by simp
qed

section \<open>Properties of the orchestrator\<close>

lemma mk_Candidate_valid:
  "0 \<le> x \<Longrightarrow> x \<le> 1 \<Longrightarrow>
   \<exists>c. mk_Candidate r s e m x = Inr c \<and> valid_conf c"
  by (simp add: mk_Candidate_def valid_conf_def)

lemma extract_direct_valid:
  "\<exists>cs. extract_direct t = Inr cs \<and> (\<forall>c \<in> set cs. valid_conf c)"
  by (simp add: extract_direct_def mk_Candidate_def valid_conf_def Let_def)

lemma brace_matching_valid:
  "\<exists>cs. extract_from_brace_matching t = Inr cs \<and> (\<forall>c \<in> set cs. valid_conf c)"
proof -
  from brace_loop_ok [of "[]" t 0] obtain cs
    where cs: "extract_from_brace_matching t = Inr cs" "\<forall>c \<in> set cs. brace_ok t c"
    by (auto simp: extract_from_brace_matching_def)
  have "valid_conf c" if "brace_ok t c" for c
    using that
      brace_formula_range [of "DQUOTE \<in> set (raw c)" "COLON \<in> set (raw c)" "length (raw c) < 10"]
    by (simp add: brace_ok_def valid_conf_def)
  with cs show ?thesis by auto
qed

lemma fence_json_loop_valid:
  "\<forall>c \<in> set acc. valid_conf c \<Longrightarrow>
   \<exists>cs. fence_json_loop t ms acc = Inr cs \<and> (\<forall>c \<in> set cs. valid_conf c)"
proof (induction ms arbitrary: acc)
  case Nil
  then show ?case by simp
next
  case (Cons m ms)
  obtain g e where m: "m = (g, e)" by (cases m)
  show ?case
    using Cons.IH [of acc]
      Cons.IH [of "acc @ [\<lparr>raw = strip (slice t g e), start_pos = g, end_pos = e,
                     cand_method = MARKDOWN_FENCE, confidence = to_double 0.95\<rparr>]"]
      Cons.prems literal_unit(1)
    by (simp add: m mk_Candidate_def valid_conf_def)
qed

lemma fence_any_loop_valid:
  "\<forall>c \<in> set acc. valid_conf c \<Longrightarrow>
   \<exists>cs. fence_any_loop t ms acc = Inr cs \<and> (\<forall>c \<in> set cs. valid_conf c)"
proof (induction ms arbitrary: acc)
  case Nil
  then show ?case by simp
next
  case (Cons m ms)
  obtain g e where m: "m = (g, e)" by (cases m)
  show ?case
    using Cons.IH [of acc]
      Cons.IH [of "acc @ [\<lparr>raw = strip (slice t g e), start_pos = g, end_pos = e,
                     cand_method = MARKDOWN_FENCE, confidence = to_double 0.85\<rparr>]"]
      Cons.prems literal_unit(2)
    by (simp add: m mk_Candidate_def valid_conf_def)
qed

lemma markdown_fence_valid:
  "\<exists>cs. extract_from_markdown_fence alnum t = Inr cs \<and> (\<forall>c \<in> set cs. valid_conf c)"
proof -
  obtain c1 where c1: "fence_json_loop t (fence_finditer fence_json_opening t 0) [] = Inr c1"
    "\<forall>c \<in> set c1. valid_conf c"
    using fence_json_loop_valid [of "[]" t] by auto
  from fence_any_loop_valid [OF c1(2)] c1(1) show ?thesis
    by (simp add: extract_from_markdown_fence_def)
qed

lemma heuristic_match_loop_valid:
  "\<forall>c \<in> set acc. valid_conf c \<Longrightarrow>
   \<exists>cs. heuristic_match_loop t ms acc = Inr cs \<and> (\<forall>c \<in> set cs. valid_conf c)"
proof (induction ms arbitrary: acc)
  case Nil
  then show ?case by simp
next
  case (Cons m ms)
  obtain s e where m: "m = (s, e)" by (cases m)
  obtain bs where bs: "extract_from_brace_matching (drop e t) = Inr bs"
    using brace_matching_valid [of "drop e t"] by auto
  show ?case
  proof (cases bs)
    case Nil
    then show ?thesis using Cons.IH [of acc] Cons.prems by (simp add: m bs)
  next
    case (Cons bc rest)
    then show ?thesis
      using Cons.IH [of "acc @ [\<lparr>raw = raw bc, start_pos = e + start_pos bc,
                     end_pos = e + end_pos bc, cand_method = HEURISTIC,
                     confidence = to_double 0.6\<rparr>]"]
        Cons.prems literal_unit(3)
      by (simp add: m bs mk_Candidate_def valid_conf_def)
  qed
qed

lemma heuristic_pattern_loop_valid:
  "\<forall>c \<in> set acc. valid_conf c \<Longrightarrow>
   \<exists>cs. heuristic_pattern_loop t ps acc = Inr cs \<and> (\<forall>c \<in> set cs. valid_conf c)"
proof (induction ps arbitrary: acc)
  case Nil
  then show ?case by simp
next
  case (Cons p ps)
  from heuristic_match_loop_valid [OF Cons.prems, of t "rx_finditer p t 0"]
  obtain cs where cs: "heuristic_match_loop t (rx_finditer p t 0) acc = Inr cs"
    "\<forall>c \<in> set cs. valid_conf c" by auto
  from Cons.IH [OF cs(2)] cs(1) show ?case by simp
qed

lemma heuristic_valid:
  "\<exists>cs. extract_heuristic t = Inr cs \<and> (\<forall>c \<in> set cs. valid_conf c)"
  using heuristic_pattern_loop_valid [of "[]" t heuristic_patterns]
  by (simp add: extract_heuristic_def)

lemma unique_loop_subset: "set (unique_loop cs seen acc) \<subseteq> set cs \<union> set acc"
proof (induction cs arbitrary: seen acc)
  case Nil
  then show ?case by simp
next
  case (Cons c cs)
  show ?case
    using Cons.IH [of "insert (raw c) seen" "acc @ [c]"] Cons.IH [of seen acc]
    by auto
qed

lemma extract_all_candidates_valid:
  "\<exists>cs. extract_all_candidates alnum t = Inr cs \<and> (\<forall>c \<in> set cs. valid_conf c)"
proof -
  obtain c1 where c1: "extract_direct t = Inr c1" "\<forall>c \<in> set c1. valid_conf c"
    using extract_direct_valid by blast
  obtain c2 where c2: "extract_from_markdown_fence alnum t = Inr c2" "\<forall>c \<in> set c2. valid_conf c"
    using markdown_fence_valid by blast
  obtain c3 where c3: "extract_from_brace_matching t = Inr c3" "\<forall>c \<in> set c3. valid_conf c"
    using brace_matching_valid by blast
  obtain c4 where c4: "extract_heuristic t = Inr c4" "\<forall>c \<in> set c4. valid_conf c"
    using heuristic_valid by blast
  have "set (unique_loop (c1 @ c2 @ c3 @ c4) {} []) \<subseteq> set (c1 @ c2 @ c3 @ c4)"
    using unique_loop_subset [of "c1 @ c2 @ c3 @ c4" "{}" "[]"] by simp
  then have "\<forall>c \<in> set (unique_loop (c1 @ c2 @ c3 @ c4) {} []). valid_conf c"
    using c1(2) c2(2) c3(2) c4(2) by auto
  then show ?thesis
    by (simp add: extract_all_candidates_def c1(1) c2(1) c3(1) c4(1) sorted_reverse_def)
qed

lemma first_valid_loop_ok:
  "\<forall>c \<in> set cs. valid_conf c \<Longrightarrow>
   \<exists>r. first_valid_loop loads repair n cs ar le = Inr r \<and> result_ok r"
proof (induction cs arbitrary: ar le)
  case Nil
  then show ?case by (simp add: mk_ExtractResult_def mk_ExtractError_def result_ok_def)
next
  case (Cons c cs)
  from Cons.prems have c: "0 \<le> confidence c" "confidence c \<le> 1"
    and rest: "\<forall>x \<in> set cs. valid_conf x"
    by (simp_all add: valid_conf_def)
  have a9: "0 \<le> fmul (confidence c) (to_double 0.9) \<and> fmul (confidence c) (to_double 0.9) \<le> 1"
    using c literal_unit(4) by (intro fmul_unit) simp_all
  have a8: "0 \<le> fmul (confidence c) (to_double 0.8) \<and> fmul (confidence c) (to_double 0.8) \<le> 1"
    using c literal_unit(5) by (intro fmul_unit) simp_all
  have a98: "0 \<le> fmul (fmul (confidence c) (to_double 0.9)) (to_double 0.8)
      \<and> fmul (fmul (confidence c) (to_double 0.9)) (to_double 0.8) \<le> 1"
    using a9 literal_unit(5) by (intro fmul_unit) simp_all
  show ?case
  proof (cases "loads (raw c)")
    case (Inr d)
    then show ?thesis using c by (simp add: mk_ExtractResult_def result_ok_def)
  next
    case (Inl e)
    show ?thesis
    proof (cases repair)
      case False
      then show ?thesis using Inl Cons.IH [OF rest] by simp
    next
      case True
      show ?thesis
      proof (cases "loads (repaired (repair_json (raw c) 5))")
        case (Inl e')
        then show ?thesis using \<open>loads (raw c) = Inl e\<close> True Cons.IH [OF rest] by simp
      next
        case (Inr d)
        then show ?thesis
          using \<open>loads (raw c) = Inl e\<close> True c a9 a8 a98
          by (simp add: mk_ExtractResult_def result_ok_def Let_def)
      qed
    qed
  qed
qed

lemma all_loop_conf:
  "\<forall>c \<in> set cs. valid_conf c \<Longrightarrow> 0 \<le> mc \<Longrightarrow> mc \<le> 1 \<Longrightarrow>
   all_loop loads repair cs rs ar sm mc = (rs', ar', sm', mc') \<Longrightarrow> 0 \<le> mc' \<and> mc' \<le> 1"
proof (induction cs arbitrary: rs ar sm mc)
  case Nil
  then show ?case by simp
next
  case (Cons c cs)
  from Cons.prems(1) have c: "0 \<le> confidence c" "confidence c \<le> 1"
    and rest: "\<forall>x \<in> set cs. valid_conf x"
    by (simp_all add: valid_conf_def)
  have adj: "0 \<le> fmul (confidence c) (to_double 0.9) \<and> fmul (confidence c) (to_double 0.9) \<le> 1"
    using c literal_unit(4) by (intro fmul_unit) simp_all
  from Cons.prems(4) show ?case
    using Cons.IH [OF rest, of "max mc (confidence c)"]
      Cons.IH [OF rest, of "max mc (fmul (confidence c) (to_double 0.9))"]
      Cons.IH [OF rest, of mc] Cons.prems(2,3) c adj
    by (auto split: sum.splits if_splits simp: max_def)
qed

lemma extract_all_ok:
  "\<forall>c \<in> set cs. valid_conf c \<Longrightarrow> \<exists>r. extract_all loads cs repair = Inr r \<and> result_ok r"
proof -
  assume v: "\<forall>c \<in> set cs. valid_conf c"
  obtain rs ar sm mc where l: "all_loop loads repair cs [] [] [] 0 = (rs, ar, sm, mc)"
    by (cases "all_loop loads repair cs [] [] [] 0") auto
  from all_loop_conf [OF v _ _ l] have "0 \<le> mc \<and> mc \<le> 1" by simp
  then show ?thesis
    by (simp add: extract_all_def l mk_ExtractResult_def mk_ExtractError_def result_ok_def)
qed

lemma set_sorted_reverse: "set (sorted_reverse k xs) = set xs"
  by (simp add: sorted_reverse_def)

lemma length_sorted_reverse: "length (sorted_reverse k xs) = length xs"
  by (simp add: sorted_reverse_def)

lemma set_rank_candidates: "set (rank_candidates cs) = set cs"
  by (simp add: rank_candidates_def set_sorted_reverse)

lemma length_rank_candidates: "length (rank_candidates cs) = length cs"
  by (simp add: rank_candidates_def length_sorted_reverse)

lemma extract_first_valid_ok:
  "\<forall>c \<in> set cs. valid_conf c \<Longrightarrow>
   \<exists>r. extract_first_valid loads cs repair = Inr r \<and> result_ok r"
  unfolding extract_first_valid_def
  by (rule first_valid_loop_ok) (simp add: set_rank_candidates)

lemma extract_json_with_metadata_ok:
  "\<exists>r. extract_json_with_metadata loads alnum t repair strat = Inr r \<and> result_ok r"
proof -
  obtain cs where cs: "extract_all_candidates alnum t = Inr cs" "\<forall>c \<in> set cs. valid_conf c"
    using extract_all_candidates_valid by blast
  have blank: "\<exists>r. mk_ExtractResult False None None 0.0 None [] 0
                 (Some (mk_ExtractError m NO_JSON_FOUND)) = Inr (r :: 'a ExtractResult)
               \<and> result_ok r" for m
    by (simp add: mk_ExtractResult_def mk_ExtractError_def result_ok_def)
  have sz: "\<forall>c \<in> set (sort_by_size cs). valid_conf c"
    using cs(2) by (simp add: sort_by_size_def set_sorted_reverse)
  show ?thesis
    using blank extract_all_ok [OF cs(2), of loads repair]
      extract_first_valid_ok [OF cs(2), of loads repair]
      extract_first_valid_ok [OF sz, of loads repair]
    by (simp add: extract_json_with_metadata_def cs(1))
qed

text \<open>
  C8. \<open>extract_json_with_metadata\<close> always returns a result (no constructor check
  fails inside it); its confidence lies in \<open>[0, 1]\<close>; when \<open>success\<close> is false the
  data is absent and an error is present; when \<open>success\<close> is true the error is absent.
  A \<open>Candidate\<close> or an \<open>ExtractResult\<close> with a confidence outside \<open>[0, 1]\<close> is
  rejected by its constructor.
\<close>

theorem extract_result_invariant:
  "(\<exists>r. extract_json_with_metadata loads alnum t repair strat = Inr r
        \<and> 0 \<le> res_confidence r \<and> res_confidence r \<le> 1
        \<and> (\<not> success r \<longrightarrow> data r = None \<and> error r \<noteq> None)
        \<and> (success r \<longrightarrow> error r = None))
   \<and> (\<not> (0 \<le> x \<and> x \<le> 1) \<longrightarrow>
         mk_Candidate rw s e m x = Inl ValueError
         \<and> mk_ExtractResult sc d rj x mo rs n er = (Inl ValueError :: exn + 'b ExtractResult))"
proof -
  obtain r where r: "extract_json_with_metadata loads alnum t repair strat = Inr r" "result_ok r"
    using extract_json_with_metadata_ok by blast
  from r(2) have "0 \<le> res_confidence r \<and> res_confidence r \<le> 1
        \<and> (\<not> success r \<longrightarrow> data r = None \<and> error r \<noteq> None)
        \<and> (success r \<longrightarrow> error r = None)"
    by (auto simp: result_ok_def split: if_splits)
  with r(1) show ?thesis by (auto simp: mk_Candidate_def mk_ExtractResult_def)
qed

text \<open>
  C9. Every error that \<open>extract_json_with_metadata\<close> returns in its result, and
  every exception that \<open>extract_json\<close> raises, is an \<open>ExtractError\<close> of the kind
  \<open>no_json_found\<close> or \<open>invalid_json\<close>; the three other kinds are never produced.
\<close>

theorem extract_error_kinds:
  "(\<forall>r e. extract_json_with_metadata loads alnum t repair strat = Inr r \<and> error r = Some e
        \<longrightarrow> error_type e = NO_JSON_FOUND \<or> error_type e = INVALID_JSON)
   \<and> (\<forall>x. extract_json loads alnum t repair strat raise_on_error = Inl x
        \<longrightarrow> (\<exists>e. x = Raised e
               \<and> (error_type e = NO_JSON_FOUND \<or> error_type e = INVALID_JSON)))"
proof -
  obtain r where r: "extract_json_with_metadata loads alnum t repair strat = Inr r" "result_ok r"
    using extract_json_with_metadata_ok by blast
  from r(2) have k: "error_type e = NO_JSON_FOUND \<or> error_type e = INVALID_JSON"
    if "error r = Some e" for e
    using that by (auto simp: result_ok_def split: if_splits)
  from r(2) have f: "\<exists>e. error r = Some e" if "\<not> success r"
    using that by (auto simp: result_ok_def split: if_splits)
  show ?thesis
    using r(1) k f
    by (auto simp: extract_json_def split: if_splits option.splits)
qed

lemma first_valid_loop_skip:
  "\<forall>x \<in> set pre. rejected loads repair x \<Longrightarrow>
   \<exists>ar' le'. first_valid_loop loads repair n (pre @ rest) ar le
             = first_valid_loop loads repair n rest ar' le'"
proof (induction pre arbitrary: ar le)
  case Nil
  then show ?case by auto
next
  case (Cons x pre)
  from Cons.prems have x: "rejected loads repair x"
    and pre: "\<forall>y \<in> set pre. rejected loads repair y" by simp_all
  from x obtain e where e: "loads (raw x) = Inl e"
    by (cases "loads (raw x)") (auto simp: rejected_def)
  show ?case
  proof (cases repair)
    case False
    then show ?thesis using e Cons.IH [OF pre, of ar "Some e"] by simp
  next
    case True
    with x obtain e' where e': "loads (repaired (repair_json (raw x) 5)) = Inl e'"
      by (cases "loads (repaired (repair_json (raw x) 5))") (auto simp: rejected_def)
    show ?thesis
      using True e e'
        Cons.IH [OF pre, of "ar @ repairs_applied (repair_json (raw x) 5)" "Some e'"]
      by simp
  qed
qed

lemma first_valid_loop_strict:
  "valid_conf c \<Longrightarrow> loads (raw c) = Inr d \<Longrightarrow>
   first_valid_loop loads repair n (c # post) ar le =
     Inr \<lparr>success = True, data = Some (Single d), raw_json = Some (raw c),
          res_confidence = confidence c, res_method = Some (cand_method c),
          res_repairs_applied = [], candidates_found = n, error = None\<rparr>"
  by (simp add: mk_ExtractResult_def valid_conf_def)

lemma first_valid_loop_repaired:
  assumes "valid_conf c" and "loads (raw c) = Inl e" and "repair"
    and "loads (repaired (repair_json (raw c) 5)) = Inr d"
  shows "first_valid_loop loads repair n (c # post) ar le =
     Inr \<lparr>success = True, data = Some (Single d),
          raw_json = Some (repaired (repair_json (raw c) 5)),
          res_confidence =
            (if is_truncated (repair_json (raw c) 5)
             then fmul (if repairs_applied (repair_json (raw c) 5) \<noteq> []
                        then fmul (confidence c) (to_double 0.9) else confidence c)
                     (to_double 0.8)
             else (if repairs_applied (repair_json (raw c) 5) \<noteq> []
                   then fmul (confidence c) (to_double 0.9) else confidence c)),
          res_method = Some (cand_method c),
          res_repairs_applied = repairs_applied (repair_json (raw c) 5),
          candidates_found = n, error = None\<rparr>"
proof -
  from assms(1) have c: "0 \<le> confidence c" "confidence c \<le> 1"
    by (simp_all add: valid_conf_def)
  have a9: "0 \<le> fmul (confidence c) (to_double 0.9) \<and> fmul (confidence c) (to_double 0.9) \<le> 1"
    using c literal_unit(4) by (intro fmul_unit) simp_all
  have a8: "0 \<le> fmul (confidence c) (to_double 0.8) \<and> fmul (confidence c) (to_double 0.8) \<le> 1"
    using c literal_unit(5) by (intro fmul_unit) simp_all
  have a98: "0 \<le> fmul (fmul (confidence c) (to_double 0.9)) (to_double 0.8)
      \<and> fmul (fmul (confidence c) (to_double 0.9)) (to_double 0.8) \<le> 1"
    using a9 literal_unit(5) by (intro fmul_unit) simp_all
  show ?thesis
    using assms(2-4) c a9 a8 a98
    by (simp add: mk_ExtractResult_def Let_def)
qed

text \<open>
  C7. Under the strategies \<open>first\<close> and \<open>largest\<close>, let \<open>c\<close> be the first
  candidate in the order of the attempts that is not passed over. If its raw text
  decodes, the result carries its original confidence and no repairs. If its raw text
  does not decode and its repaired text does, the confidence is the candidate's,
  times \<open>0.9\<close> if any repair label was applied, times \<open>0.8\<close> if the repair flagged
  truncation, each product a Python float product; the method is the candidate's
  detection method in both cases.
\<close>

theorem first_valid_result:
  assumes "strat \<noteq> All" and "strip t \<noteq> []"
    and "extract_all_candidates alnum t = Inr cands"
    and "rank_candidates (if strat = Largest then sort_by_size cands else cands)
           = pre @ c # post"
    and "\<forall>x \<in> set pre. rejected loads repair x"
  shows "(\<forall>d. loads (raw c) = Inr d \<longrightarrow>
            extract_json_with_metadata loads alnum t repair strat =
              Inr \<lparr>success = True, data = Some (Single d), raw_json = Some (raw c),
                   res_confidence = confidence c, res_method = Some (cand_method c),
                   res_repairs_applied = [], candidates_found = length cands,
                   error = None\<rparr>)
       \<and> (\<forall>d. isl (loads (raw c)) \<and> repair
               \<and> loads (repaired (repair_json (raw c) 5)) = Inr d \<longrightarrow>
            extract_json_with_metadata loads alnum t repair strat =
              Inr \<lparr>success = True, data = Some (Single d),
                   raw_json = Some (repaired (repair_json (raw c) 5)),
                   res_confidence =
                     (if is_truncated (repair_json (raw c) 5)
                      then fmul (if repairs_applied (repair_json (raw c) 5) \<noteq> []
                                 then fmul (confidence c) (to_double 0.9) else confidence c)
                              (to_double 0.8)
                      else (if repairs_applied (repair_json (raw c) 5) \<noteq> []
                            then fmul (confidence c) (to_double 0.9) else confidence c)),
                   res_method = Some (cand_method c),
                   res_repairs_applied = repairs_applied (repair_json (raw c) 5),
                   candidates_found = length cands, error = None\<rparr>)"
proof -
  let ?cs = "if strat = Largest then sort_by_size cands else cands"
  from extract_all_candidates_valid [of alnum t] assms(3)
  have v: "\<forall>x \<in> set cands. valid_conf x" by simp
  have "c \<in> set (rank_candidates ?cs)" using assms(4) by simp
  then have "c \<in> set cands"
    by (simp add: set_rank_candidates sort_by_size_def set_sorted_reverse split: if_splits)
  with v have vc: "valid_conf c" by simp
  have ne: "cands \<noteq> []" using \<open>c \<in> set cands\<close> by auto
  have len: "length (rank_candidates ?cs) = length cands"
    by (simp add: length_rank_candidates sort_by_size_def length_sorted_reverse)
  have tne: "t \<noteq> []" using assms(2) by (auto simp: strip_def lstrip_def rstrip_def)
  have run: "extract_json_with_metadata loads alnum t repair strat
             = first_valid_loop loads repair (length cands) (pre @ c # post) [] None"
    using assms(1,2,3) ne len assms(4) tne
    by (auto simp: extract_json_with_metadata_def extract_first_valid_def)
  from first_valid_loop_skip [OF assms(5), of "length cands" "c # post" "[]" None]
  obtain ar le where skip: "first_valid_loop loads repair (length cands) (pre @ c # post) [] None
      = first_valid_loop loads repair (length cands) (c # post) ar le" by blast
  show ?thesis
  proof (intro conjI allI impI)
    fix d assume "loads (raw c) = Inr d"
    with vc have "first_valid_loop loads repair (length cands) (c # post) ar le =
              Inr \<lparr>success = True, data = Some (Single d), raw_json = Some (raw c),
                   res_confidence = confidence c, res_method = Some (cand_method c),
                   res_repairs_applied = [], candidates_found = length cands,
                   error = None\<rparr>"
      by (rule first_valid_loop_strict)
    with run skip
    show "extract_json_with_metadata loads alnum t repair strat =
              Inr \<lparr>success = True, data = Some (Single d), raw_json = Some (raw c),
                   res_confidence = confidence c, res_method = Some (cand_method c),
                   res_repairs_applied = [], candidates_found = length cands,
                   error = None\<rparr>" by simp
  next
    fix d assume a: "isl (loads (raw c)) \<and> repair
               \<and> loads (repaired (repair_json (raw c) 5)) = Inr d"
    then obtain e where e: "loads (raw c) = Inl e" by (cases "loads (raw c)") auto
    from a have rp: repair and ld: "loads (repaired (repair_json (raw c) 5)) = Inr d"
      by simp_all
    from first_valid_loop_repaired [of c loads e repair d "length cands" post ar le, OF vc e rp ld]
      run skip
    show "extract_json_with_metadata loads alnum t repair strat =
              Inr \<lparr>success = True, data = Some (Single d),
                   raw_json = Some (repaired (repair_json (raw c) 5)),
                   res_confidence =
                     (if is_truncated (repair_json (raw c) 5)
                      then fmul (if repairs_applied (repair_json (raw c) 5) \<noteq> []
                                 then fmul (confidence c) (to_double 0.9) else confidence c)
                              (to_double 0.8)
                      else (if repairs_applied (repair_json (raw c) 5) \<noteq> []
                            then fmul (confidence c) (to_double 0.9) else confidence c)),
                   res_method = Some (cand_method c),
                   res_repairs_applied = repairs_applied (repair_json (raw c) 5),
                   candidates_found = length cands, error = None\<rparr>" by simp
  qed
qed

section \<open>The orchestrator on concrete inputs\<close>

lemmas rx_defs = rx_char_def rx_seq_def rx_alt_def rx_opt_def rx_star_def rx_plus_def rx_lazy_any_def
  ci_eq_def isword_def ascii_alnum_def is_newline_def fence_json_opening_def fence_any_opening_def
  fence_closing_def fence_match_at_def heuristic_tail_def heuristic_patterns_def
  rx_finditer.simps fence_finditer.simps

lemmas detect_defs = extract_direct_def looks_like_json_def mk_Candidate_def strip_def lstrip_def
  rstrip_def isspace_def extract_from_markdown_fence_def extract_heuristic_def
  extract_from_brace_matching_def brace_loop.simps match_braces_def
  conf_formula brace_formula_values slice_def Let_def

lemmas json_defs = json_loads_def skip_ws_def json_ws_def unescape_def json_number_def
  is_digit_def digits_value_def

lemma candidates_comma:
  \<open>extract_all_candidates ascii_alnum (str ''{"key": "value",}'') =
     Inr [\<lparr>raw = str ''{"key": "value",}'', start_pos = 0, end_pos = 17,
            cand_method = DIRECT_PARSE, confidence = 1\<rparr>]\<close>
  by (simp add: extract_all_candidates_def sorted_reverse_def detect_defs rx_defs str_def)

lemma loads_comma: \<open>json_loads (str ''{"key": "value",}'') = Inl (str ''invalid JSON'')\<close>
  by (simp add: json_defs str_def)

lemma loads_plain:
  \<open>json_loads (str ''{"key": "value"}'') = Inr (JObject [(str ''key'', JString (str ''value''))])\<close>
  by (simp add: json_defs str_def)

lemma repair_key_comma:
  \<open>repair_json (str ''{"key": "value",}'') 5 =
     \<lparr>repaired = str ''{"key": "value"}'', repairs_applied = [''trailing_comma_removal''],
       is_truncated = False\<rparr>\<close>
  by (simp add: repair_defs str_def repair_loop_numeral)

lemma candidates_plain:
  \<open>extract_all_candidates ascii_alnum (str ''{"key": "value"}'') =
     Inr [\<lparr>raw = str ''{"key": "value"}'', start_pos = 0, end_pos = 16,
            cand_method = DIRECT_PARSE, confidence = 1\<rparr>]\<close>
  by (simp add: extract_all_candidates_def sorted_reverse_def detect_defs rx_defs str_def)

lemma strip_comma: \<open>strip (str ''{"key": "value",}'') \<noteq> []\<close>
  by (simp add: strip_def lstrip_def rstrip_def isspace_def str_def)

lemma strip_plain: \<open>strip (str ''{"key": "value"}'') \<noteq> []\<close>
  by (simp add: strip_def lstrip_def rstrip_def isspace_def str_def)

lemma rank_single:
  "rank_candidates (if First = Largest then sort_by_size [c] else [c]) = [] @ c # []"
  by (simp add: rank_candidates_def sorted_reverse_def)

lemma candidates_two_blocks:
  \<open>extract_all_candidates ascii_alnum (str ''x {"k": "v"} y [[], [], [], []] z'') =
     Inr [\<lparr>raw = str ''{"k": "v"}'', start_pos = 2, end_pos = 12,
            cand_method = BRACE_MATCH, confidence = 8106479329266893 / 9007199254740992\<rparr>,
          \<lparr>raw = str ''[[], [], [], []]'', start_pos = 15, end_pos = 31,
            cand_method = BRACE_MATCH, confidence = 3602879701896397 / 4503599627370496\<rparr>]\<close>
  by (simp add: extract_all_candidates_def sorted_reverse_def detect_defs rx_defs str_def)

lemma sort_two_blocks:
  \<open>sort_by_size
     [\<lparr>raw = str ''{"k": "v"}'', start_pos = 2, end_pos = 12,
        cand_method = BRACE_MATCH, confidence = 8106479329266893 / 9007199254740992\<rparr>,
      \<lparr>raw = str ''[[], [], [], []]'', start_pos = 15, end_pos = 31,
        cand_method = BRACE_MATCH, confidence = 3602879701896397 / 4503599627370496\<rparr>] =
     [\<lparr>raw = str ''[[], [], [], []]'', start_pos = 15, end_pos = 31,
        cand_method = BRACE_MATCH, confidence = 3602879701896397 / 4503599627370496\<rparr>,
      \<lparr>raw = str ''{"k": "v"}'', start_pos = 2, end_pos = 12,
        cand_method = BRACE_MATCH, confidence = 8106479329266893 / 9007199254740992\<rparr>]\<close>
  by (simp add: sort_by_size_def sorted_reverse_def str_def)

lemma rank_two_blocks:
  \<open>rank_candidates
     [\<lparr>raw = str ''[[], [], [], []]'', start_pos = 15, end_pos = 31,
        cand_method = BRACE_MATCH, confidence = 3602879701896397 / 4503599627370496\<rparr>,
      \<lparr>raw = str ''{"k": "v"}'', start_pos = 2, end_pos = 12,
        cand_method = BRACE_MATCH, confidence = 8106479329266893 / 9007199254740992\<rparr>] =
     [\<lparr>raw = str ''{"k": "v"}'', start_pos = 2, end_pos = 12,
        cand_method = BRACE_MATCH, confidence = 8106479329266893 / 9007199254740992\<rparr>,
      \<lparr>raw = str ''[[], [], [], []]'', start_pos = 15, end_pos = 31,
        cand_method = BRACE_MATCH, confidence = 3602879701896397 / 4503599627370496\<rparr>]\<close>
  by (simp add: rank_candidates_def sorted_reverse_def ranking_score_def str_def dbl_defs)

lemma loads_object_block:
  \<open>json_loads (str ''{"k": "v"}'') = Inr (JObject [(str ''k'', JString (str ''v''))])\<close>
  by (simp add: json_defs str_def)

lemma loads_array_block:
  \<open>json_loads (str ''[[], [], [], []]'') = Inr (JArray [JArray [], JArray [], JArray [], JArray []])\<close>
  by (simp add: json_defs str_def)

lemma strip_two_blocks: \<open>strip (str ''x {"k": "v"} y [[], [], [], []] z'') \<noteq> []\<close>
  by (simp add: strip_def lstrip_def rstrip_def isspace_def str_def)

lemma rank_largest_two_blocks:
  \<open>rank_candidates
     (if Largest = Largest
      then sort_by_size
             [\<lparr>raw = str ''{"k": "v"}'', start_pos = 2, end_pos = 12,
                cand_method = BRACE_MATCH, confidence = 8106479329266893 / 9007199254740992\<rparr>,
              \<lparr>raw = str ''[[], [], [], []]'', start_pos = 15, end_pos = 31,
                cand_method = BRACE_MATCH, confidence = 3602879701896397 / 4503599627370496\<rparr>]
      else [\<lparr>raw = str ''{"k": "v"}'', start_pos = 2, end_pos = 12,
                cand_method = BRACE_MATCH, confidence = 8106479329266893 / 9007199254740992\<rparr>,
              \<lparr>raw = str ''[[], [], [], []]'', start_pos = 15, end_pos = 31,
                cand_method = BRACE_MATCH, confidence = 3602879701896397 / 4503599627370496\<rparr>]) =
     [] @ \<lparr>raw = str ''{"k": "v"}'', start_pos = 2, end_pos = 12,
          cand_method = BRACE_MATCH, confidence = 8106479329266893 / 9007199254740992\<rparr>
        # [\<lparr>raw = str ''[[], [], [], []]'', start_pos = 15, end_pos = 31,
            cand_method = BRACE_MATCH, confidence = 3602879701896397 / 4503599627370496\<rparr>]\<close>
  by (simp add: sort_two_blocks rank_two_blocks)

text \<open>
  A truncated text: \<open>[{"a": 1}\<close> does not decode, and its repair appends the missing
  bracket and flags truncation.
\<close>

lemma candidates_open_array:
  \<open>extract_all_candidates ascii_alnum (str ''[{"a": 1}'') =
     Inr [\<lparr>raw = str ''[{"a": 1}'', start_pos = 0, end_pos = 9,
            cand_method = DIRECT_PARSE, confidence = 1\<rparr>,
          \<lparr>raw = str ''{"a": 1}'', start_pos = 1, end_pos = 9,
            cand_method = BRACE_MATCH, confidence = 7205759403792795 / 9007199254740992\<rparr>]\<close>
  by (simp add: extract_all_candidates_def sorted_reverse_def detect_defs rx_defs str_def)

lemma strip_open_array: \<open>strip (str ''[{"a": 1}'') \<noteq> []\<close>
  by (simp add: strip_def lstrip_def rstrip_def isspace_def str_def)

lemma rank_open_array:
  \<open>rank_candidates
     (if First = Largest
      then sort_by_size
             [\<lparr>raw = str ''[{"a": 1}'', start_pos = 0, end_pos = 9,
                cand_method = DIRECT_PARSE, confidence = 1\<rparr>,
              \<lparr>raw = str ''{"a": 1}'', start_pos = 1, end_pos = 9,
                cand_method = BRACE_MATCH, confidence = 7205759403792795 / 9007199254740992\<rparr>]
      else [\<lparr>raw = str ''[{"a": 1}'', start_pos = 0, end_pos = 9,
                cand_method = DIRECT_PARSE, confidence = 1\<rparr>,
              \<lparr>raw = str ''{"a": 1}'', start_pos = 1, end_pos = 9,
                cand_method = BRACE_MATCH, confidence = 7205759403792795 / 9007199254740992\<rparr>]) =
     [] @ \<lparr>raw = str ''[{"a": 1}'', start_pos = 0, end_pos = 9,
          cand_method = DIRECT_PARSE, confidence = 1\<rparr>
        # [\<lparr>raw = str ''{"a": 1}'', start_pos = 1, end_pos = 9,
            cand_method = BRACE_MATCH, confidence = 7205759403792795 / 9007199254740992\<rparr>]\<close>
  by (simp add: rank_candidates_def sorted_reverse_def ranking_score_def str_def dbl_defs)

lemma loads_open_array: \<open>json_loads (str ''[{"a": 1}'') = Inl (str ''invalid JSON'')\<close>
  by (simp add: json_defs str_def)

lemma repair_open_array:
  \<open>repair_json (str ''[{"a": 1}'') 5 =
     \<lparr>repaired = str ''[{"a": 1}]'', repairs_applied = [''brace_completion''],
       is_truncated = True\<rparr>\<close>
  by (simp add: repair_defs str_def repair_loop_numeral)

lemma loads_closed_array:
  \<open>json_loads (str ''[{"a": 1}]'') = Inr (JArray [JObject [(str ''a'', JNumber 1)]])\<close>
  by (simp add: json_defs str_def)

text \<open>
  A fenced array followed by an array of one string. The fence has the confidence
  \<open>0.85\<close> and the brace-matched array \<open>0.8 + 0.05\<close>, which in floats is
  \<open>0.8500000000000001\<close>: the brace-matched array comes first.
\<close>

lemma candidates_fence_tie:
  \<open>extract_all_candidates ascii_alnum
       ([BACKTICK, BACKTICK, BACKTICK, NEWLINE] @ str ''[1,2,3,40]''
          @ [NEWLINE, BACKTICK, BACKTICK, BACKTICK] @ str '' ["abcdef"]'') =
     Inr [\<lparr>raw = str ''["abcdef"]'', start_pos = 19, end_pos = 29,
            cand_method = BRACE_MATCH, confidence = 1914029841632461 / 2251799813685248\<rparr>,
          \<lparr>raw = str ''[1,2,3,40]'', start_pos = 4, end_pos = 14,
            cand_method = MARKDOWN_FENCE, confidence = 7656119366529843 / 9007199254740992\<rparr>]\<close>
  by (simp add: extract_all_candidates_def sorted_reverse_def detect_defs rx_defs str_def dbl_defs)

lemma strip_fence_tie:
  \<open>strip ([BACKTICK, BACKTICK, BACKTICK, NEWLINE] @ str ''[1,2,3,40]''
          @ [NEWLINE, BACKTICK, BACKTICK, BACKTICK] @ str '' ["abcdef"]'') \<noteq> []\<close>
  by (simp add: strip_def lstrip_def rstrip_def isspace_def str_def)

lemma rank_fence_tie:
  \<open>rank_candidates
     (if First = Largest
      then sort_by_size
             [\<lparr>raw = str ''["abcdef"]'', start_pos = 19, end_pos = 29,
                cand_method = BRACE_MATCH, confidence = 1914029841632461 / 2251799813685248\<rparr>,
              \<lparr>raw = str ''[1,2,3,40]'', start_pos = 4, end_pos = 14,
                cand_method = MARKDOWN_FENCE, confidence = 7656119366529843 / 9007199254740992\<rparr>]
      else [\<lparr>raw = str ''["abcdef"]'', start_pos = 19, end_pos = 29,
                cand_method = BRACE_MATCH, confidence = 1914029841632461 / 2251799813685248\<rparr>,
              \<lparr>raw = str ''[1,2,3,40]'', start_pos = 4, end_pos = 14,
                cand_method = MARKDOWN_FENCE, confidence = 7656119366529843 / 9007199254740992\<rparr>]) =
     [] @ \<lparr>raw = str ''["abcdef"]'', start_pos = 19, end_pos = 29,
          cand_method = BRACE_MATCH, confidence = 1914029841632461 / 2251799813685248\<rparr>
        # [\<lparr>raw = str ''[1,2,3,40]'', start_pos = 4, end_pos = 14,
            cand_method = MARKDOWN_FENCE, confidence = 7656119366529843 / 9007199254740992\<rparr>]\<close>
  by (simp add: rank_candidates_def sorted_reverse_def ranking_score_def str_def dbl_defs)

lemma loads_quoted: \<open>json_loads (str ''["abcdef"]'') = Inr (JArray [JString (str ''abcdef'')])\<close>
  by (simp add: json_defs str_def)

text \<open>
  The theorem of C7 at five texts: \<open>{"key": "value",}\<close> decodes only after a repair
  (confidence \<open>1.0 * 0.9\<close>); \<open>{"key": "value"}\<close> decodes at once; under the strategy
  \<open>largest\<close>, a text with two blocks; \<open>[{"a": 1}\<close> decodes only after a repair that
  flags truncation (confidence \<open>1.0 * 0.9 * 0.8\<close>, the float \<open>0.7200000000000001\<close>); and
  the fenced array followed by a brace-matched one, where the result is the latter with
  the confidence \<open>0.8500000000000001\<close>.
\<close>

theorem first_valid_result_witness:
  \<open>First \<noteq> All
   \<and> extract_all_candidates ascii_alnum (str ''{"key": "value",}'') =
       Inr [\<lparr>raw = str ''{"key": "value",}'', start_pos = 0, end_pos = 17,
              cand_method = DIRECT_PARSE, confidence = 1\<rparr>]
   \<and> isl (json_loads (str ''{"key": "value",}''))
   \<and> repair_json (str ''{"key": "value",}'') 5 =
       \<lparr>repaired = str ''{"key": "value"}'', repairs_applied = [''trailing_comma_removal''],
         is_truncated = False\<rparr>
   \<and> extract_json_with_metadata json_loads ascii_alnum (str ''{"key": "value",}'') True First =
       Inr \<lparr>success = True,
            data = Some (Single (JObject [(str ''key'', JString (str ''value''))])),
            raw_json = Some (str ''{"key": "value"}''),
            res_confidence = 8106479329266893 / 9007199254740992,
            res_method = Some DIRECT_PARSE, res_repairs_applied = [''trailing_comma_removal''],
            candidates_found = 1, error = None\<rparr>
   \<and> fmul 1 (to_double 0.9) = 8106479329266893 / 9007199254740992
   \<and> extract_json_with_metadata json_loads ascii_alnum (str ''{"key": "value"}'') True First =
       Inr \<lparr>success = True,
            data = Some (Single (JObject [(str ''key'', JString (str ''value''))])),
            raw_json = Some (str ''{"key": "value"}''),
            res_confidence = 1,
            res_method = Some DIRECT_PARSE, res_repairs_applied = [],
            candidates_found = 1, error = None\<rparr>
   \<and> Largest \<noteq> All
   \<and> extract_json_with_metadata json_loads ascii_alnum
         (str ''x {"k": "v"} y [[], [], [], []] z'') True Largest =
       Inr \<lparr>success = True,
            data = Some (Single (JObject [(str ''k'', JString (str ''v''))])),
            raw_json = Some (str ''{"k": "v"}''),
            res_confidence = 8106479329266893 / 9007199254740992,
            res_method = Some BRACE_MATCH, res_repairs_applied = [],
            candidates_found = 2, error = None\<rparr>
   \<and> isl (json_loads (str ''[{"a": 1}''))
   \<and> repair_json (str ''[{"a": 1}'') 5 =
       \<lparr>repaired = str ''[{"a": 1}]'', repairs_applied = [''brace_completion''],
         is_truncated = True\<rparr>
   \<and> extract_json_with_metadata json_loads ascii_alnum (str ''[{"a": 1}'') True First =
       Inr \<lparr>success = True,
            data = Some (Single (JArray [JObject [(str ''a'', JNumber 1)]])),
            raw_json = Some (str ''[{"a": 1}]''),
            res_confidence = 6485183463413515 / 9007199254740992,
            res_method = Some DIRECT_PARSE, res_repairs_applied = [''brace_completion''],
            candidates_found = 2, error = None\<rparr>
   \<and> fmul (fmul 1 (to_double 0.9)) (to_double 0.8) = 6485183463413515 / 9007199254740992
   \<and> extract_json_with_metadata json_loads ascii_alnum
         ([BACKTICK, BACKTICK, BACKTICK, NEWLINE] @ str ''[1,2,3,40]''
          @ [NEWLINE, BACKTICK, BACKTICK, BACKTICK] @ str '' ["abcdef"]'') True First =
       Inr \<lparr>success = True,
            data = Some (Single (JArray [JString (str ''abcdef'')])),
            raw_json = Some (str ''["abcdef"]''),
            res_confidence = 1914029841632461 / 2251799813685248,
            res_method = Some BRACE_MATCH, res_repairs_applied = [],
            candidates_found = 2, error = None\<rparr>
   \<and> fadd (to_double 0.8) (to_double 0.05) = 1914029841632461 / 2251799813685248
   \<and> to_double 0.85 = 7656119366529843 / 9007199254740992\<close>
proof -
  have l: "Largest \<noteq> All" by simp
  from first_valid_result
         [OF l strip_two_blocks candidates_two_blocks rank_largest_two_blocks, of json_loads True]
  have 3: \<open>extract_json_with_metadata json_loads ascii_alnum
         (str ''x {"k": "v"} y [[], [], [], []] z'') True Largest =
       Inr \<lparr>success = True,
            data = Some (Single (JObject [(str ''k'', JString (str ''v''))])),
            raw_json = Some (str ''{"k": "v"}''),
            res_confidence = 8106479329266893 / 9007199254740992,
            res_method = Some BRACE_MATCH, res_repairs_applied = [],
            candidates_found = 2, error = None\<rparr>\<close>
    by (simp add: loads_object_block)
  have s: "First \<noteq> All" by simp
  have e: "\<forall>x \<in> set []. rejected json_loads True x" by simp
  from first_valid_result [OF s strip_comma candidates_comma rank_single e]
  have 1: \<open>extract_json_with_metadata json_loads ascii_alnum (str ''{"key": "value",}'') True First =
       Inr \<lparr>success = True,
            data = Some (Single (JObject [(str ''key'', JString (str ''value''))])),
            raw_json = Some (str ''{"key": "value"}''),
            res_confidence = 8106479329266893 / 9007199254740992,
            res_method = Some DIRECT_PARSE, res_repairs_applied = [''trailing_comma_removal''],
            candidates_found = 1, error = None\<rparr>\<close>
    by (simp add: loads_comma repair_key_comma loads_plain dbl_defs)
  from first_valid_result [OF s strip_plain candidates_plain rank_single e]
  have 2: \<open>extract_json_with_metadata json_loads ascii_alnum (str ''{"key": "value"}'') True First =
       Inr \<lparr>success = True,
            data = Some (Single (JObject [(str ''key'', JString (str ''value''))])),
            raw_json = Some (str ''{"key": "value"}''),
            res_confidence = 1,
            res_method = Some DIRECT_PARSE, res_repairs_applied = [],
            candidates_found = 1, error = None\<rparr>\<close>
    by (simp add: loads_plain)
  from first_valid_result [OF s strip_open_array candidates_open_array rank_open_array e]
  have 4: \<open>extract_json_with_metadata json_loads ascii_alnum (str ''[{"a": 1}'') True First =
       Inr \<lparr>success = True,
            data = Some (Single (JArray [JObject [(str ''a'', JNumber 1)]])),
            raw_json = Some (str ''[{"a": 1}]''),
            res_confidence = 6485183463413515 / 9007199254740992,
            res_method = Some DIRECT_PARSE, res_repairs_applied = [''brace_completion''],
            candidates_found = 2, error = None\<rparr>\<close>
    by (simp add: loads_open_array repair_open_array loads_closed_array dbl_defs)
  from first_valid_result [OF s strip_fence_tie candidates_fence_tie rank_fence_tie e]
  have 5: \<open>extract_json_with_metadata json_loads ascii_alnum
         ([BACKTICK, BACKTICK, BACKTICK, NEWLINE] @ str ''[1,2,3,40]''
          @ [NEWLINE, BACKTICK, BACKTICK, BACKTICK] @ str '' ["abcdef"]'') True First =
       Inr \<lparr>success = True,
            data = Some (Single (JArray [JString (str ''abcdef'')])),
            raw_json = Some (str ''["abcdef"]''),
            res_confidence = 1914029841632461 / 2251799813685248,
            res_method = Some BRACE_MATCH, res_repairs_applied = [],
            candidates_found = 2, error = None\<rparr>\<close>
    by (simp add: loads_quoted)
  have v: \<open>fmul 1 (to_double 0.9) = 8106479329266893 / 9007199254740992\<close>
    \<open>fmul (fmul 1 (to_double 0.9)) (to_double 0.8) = 6485183463413515 / 9007199254740992\<close>
    \<open>fadd (to_double 0.8) (to_double 0.05) = 1914029841632461 / 2251799813685248\<close>
    \<open>to_double 0.85 = 7656119366529843 / 9007199254740992\<close>
    by (simp_all add: dbl_defs)
  from s l 1 2 3 4 5 v show ?thesis
    by (simp add: candidates_comma loads_comma repair_key_comma loads_open_array
        repair_open_array)
qed

lemma metadata_no_repair:
  \<open>extract_json_with_metadata json_loads ascii_alnum (str ''{"key": "value",}'') False First =
     Inr \<lparr>success = False, data = None, raw_json = None, res_confidence = 0,
          res_method = None, res_repairs_applied = [], candidates_found = 1,
          error = Some \<lparr>message = str ''Failed to parse JSON from 1 candidate(s): invalid JSON'',
                         error_type = INVALID_JSON, position = None\<rparr>\<rparr>\<close>
  by (simp add: extract_json_with_metadata_def strip_comma candidates_comma
      extract_first_valid_def rank_candidates_def sorted_reverse_def loads_comma
      mk_ExtractResult_def mk_ExtractError_def str_of_nat.simps)
     (simp add: str_def)

text \<open>
  The theorem of C8 at \<open>{"key": "value",}\<close> with repair off, a failure with an
  error and no data, and at the confidence \<open>1.5\<close>, which both constructors reject.
\<close>

theorem extract_result_invariant_witness:
  \<open>extract_json_with_metadata json_loads ascii_alnum (str ''{"key": "value",}'') False First =
     Inr \<lparr>success = False, data = None, raw_json = None, res_confidence = 0,
          res_method = None, res_repairs_applied = [], candidates_found = 1,
          error = Some \<lparr>message = str ''Failed to parse JSON from 1 candidate(s): invalid JSON'',
                         error_type = INVALID_JSON, position = None\<rparr>\<rparr>
   \<and> \<not> (0 \<le> (1.5 :: real) \<and> (1.5 :: real) \<le> 1)
   \<and> mk_Candidate (str ''{}'') 0 2 DIRECT_PARSE 1.5 = Inl ValueError
   \<and> mk_ExtractResult True (Some (Single JNull)) None 1.5 None [] 0 None
       = (Inl ValueError :: exn + json ExtractResult)\<close>
  using extract_result_invariant [of json_loads ascii_alnum \<open>str ''{"key": "value",}''\<close>
      False First "1.5" \<open>str ''{}''\<close> 0 2 DIRECT_PARSE True "Some (Single JNull)" None None
      "[]" 0 None]
  by (simp add: metadata_no_repair)

lemma extract_json_no_repair:
  \<open>extract_json json_loads ascii_alnum (str ''{"key": "value",}'') False First True =
     Inl (Raised \<lparr>message = str ''Failed to parse JSON from 1 candidate(s): invalid JSON'',
                   error_type = INVALID_JSON, position = None\<rparr>)\<close>
  by (simp add: extract_json_def metadata_no_repair)

text \<open>
  The theorem of C9 at \<open>{"key": "value",}\<close> with repair off: the error returned and
  the error raised are of the kind \<open>invalid_json\<close>.
\<close>

theorem extract_error_kinds_witness:
  \<open>extract_json_with_metadata json_loads ascii_alnum (str ''{"key": "value",}'') False First =
     Inr \<lparr>success = False, data = None, raw_json = None, res_confidence = 0,
          res_method = None, res_repairs_applied = [], candidates_found = 1,
          error = Some \<lparr>message = str ''Failed to parse JSON from 1 candidate(s): invalid JSON'',
                         error_type = INVALID_JSON, position = None\<rparr>\<rparr>
   \<and> extract_json json_loads ascii_alnum (str ''{"key": "value",}'') False First True =
     Inl (Raised \<lparr>message = str ''Failed to parse JSON from 1 candidate(s): invalid JSON'',
                   error_type = INVALID_JSON, position = None\<rparr>)\<close>
  using extract_error_kinds [of json_loads ascii_alnum \<open>str ''{"key": "value",}''\<close>
      False First True]
  by (simp add: metadata_no_repair extract_json_no_repair)

text \<open>
  C1 fails on the code. Under the strategy \<open>largest\<close> the candidates sorted by
  size go through \<open>_extract_first_valid\<close>, which ranks them again by score: for
  the text below, the array is the longer candidate and decodes, and the result is the
  shorter object, whose score is higher.
\<close>

theorem largest_returns_shorter_candidate:
  \<open>extract_all_candidates ascii_alnum (str ''x {"k": "v"} y [[], [], [], []] z'') =
     Inr [\<lparr>raw = str ''{"k": "v"}'', start_pos = 2, end_pos = 12,
            cand_method = BRACE_MATCH, confidence = to_double 0.9\<rparr>,
          \<lparr>raw = str ''[[], [], [], []]'', start_pos = 15, end_pos = 31,
            cand_method = BRACE_MATCH, confidence = to_double 0.8\<rparr>]
   \<and> length (str ''{"k": "v"}'') < length (str ''[[], [], [], []]'')
   \<and> json_loads (str ''[[], [], [], []]'')
       = Inr (JArray [JArray [], JArray [], JArray [], JArray []])
   \<and> extract_json_with_metadata json_loads ascii_alnum
         (str ''x {"k": "v"} y [[], [], [], []] z'') True Largest =
       Inr \<lparr>success = True,
            data = Some (Single (JObject [(str ''k'', JString (str ''v''))])),
            raw_json = Some (str ''{"k": "v"}''), res_confidence = to_double 0.9,
            res_method = Some BRACE_MATCH, res_repairs_applied = [],
            candidates_found = 2, error = None\<rparr>\<close>
proof -
  have \<open>extract_json_with_metadata json_loads ascii_alnum
         (str ''x {"k": "v"} y [[], [], [], []] z'') True Largest =
       Inr \<lparr>success = True,
            data = Some (Single (JObject [(str ''k'', JString (str ''v''))])),
            raw_json = Some (str ''{"k": "v"}''),
            res_confidence = 8106479329266893 / 9007199254740992,
            res_method = Some BRACE_MATCH, res_repairs_applied = [],
            candidates_found = 2, error = None\<rparr>\<close>
    using strip_two_blocks
    by (simp add: extract_json_with_metadata_def candidates_two_blocks extract_first_valid_def
        sort_two_blocks rank_two_blocks loads_object_block mk_ExtractResult_def)
       (simp add: str_def)
  moreover have \<open>length (str ''{"k": "v"}'') < length (str ''[[], [], [], []]'')\<close>
    by (simp add: str_def)
  moreover have \<open>to_double 0.9 = 8106479329266893 / 9007199254740992\<close>
    \<open>to_double 0.8 = 3602879701896397 / 4503599627370496\<close>
    by (simp_all add: dbl_defs)
  ultimately show ?thesis
    by (simp add: candidates_two_blocks loads_array_block)
qed

section \<open>Trailing commas inside string literals\<close>

lemma trailing_comma_at_append:
  "trailing_comma_at (cs @ COMMA # s) =
     (case trailing_comma_at cs of
        Some (g, r) \<Rightarrow> Some (g, r @ COMMA # s)
      | None \<Rightarrow> None)"
proof (cases "dropWhile isspace cs")
  case Nil
  then have all: "\<forall>x \<in> set cs. isspace x" by (simp add: dropWhile_eq_Nil_conv)
  have nc: "\<not> isspace COMMA" by (simp add: isspace_def)
  from all nc have "dropWhile isspace (cs @ COMMA # s) = COMMA # s"
    by (simp add: dropWhile_append2)
  then have "trailing_comma_at (cs @ COMMA # s) = None"
    by (simp add: trailing_comma_at_def)
  moreover have "trailing_comma_at cs = None"
    by (simp only: trailing_comma_at_def Nil list.case)
  ultimately show ?thesis by simp
next
  case (Cons d ds)
  then have ex: "\<exists>x \<in> set cs. \<not> isspace x"
    by (metis dropWhile_eq_Nil_conv list.distinct(1))
  then obtain x where x: "x \<in> set cs" "\<not> isspace x" by blast
  then have "dropWhile isspace (cs @ COMMA # s) = dropWhile isspace cs @ COMMA # s"
    and "takeWhile isspace (cs @ COMMA # s) = takeWhile isspace cs"
    by (simp_all add: dropWhile_append1 [of x] takeWhile_append1 [of x])
  then show ?thesis using Cons by (simp add: trailing_comma_at_def)
qed

lemma sub_trailing_commas_append:
  "sub_trailing_commas (pre @ COMMA # s) = sub_trailing_commas pre @ sub_trailing_commas (COMMA # s)"
proof (induction pre rule: sub_trailing_commas.induct)
  case 1
  then show ?case by simp
next
  case (2 c cs)
  show ?case
  proof (cases "c = COMMA")
    case False
    then show ?thesis using 2 by simp
  next
    case True
    show ?thesis
    proof (cases "trailing_comma_at cs")
      case None
      then show ?thesis using True 2 by (simp add: trailing_comma_at_append)
    next
      case (Some p)
      obtain g r where p: "p = (g, r)" by (cases p)
      from "2.IH"(2) [OF True Some p [symmetric]]
      show ?thesis using True Some p by (simp add: trailing_comma_at_append)
    qed
  qed
qed

lemma sub_trailing_commas_at_comma:
  assumes "\<forall>x \<in> set ws. isspace x" and "c = RBRACE \<or> c = RBRACKET"
  shows "sub_trailing_commas (COMMA # ws @ c # rest) = ws @ c # sub_trailing_commas rest"
proof -
  from assms(2) have nc: "\<not> isspace c" by (auto simp: isspace_def)
  from assms(1) nc have "dropWhile isspace (ws @ c # rest) = c # rest"
    and "takeWhile isspace (ws @ c # rest) = ws"
    by (simp_all add: dropWhile_append2 takeWhile_append2)
  with assms(2) have "trailing_comma_at (ws @ c # rest) = Some (ws @ [c], rest)"
    by (auto simp: trailing_comma_at_def)
  then show ?thesis by simp
qed

lemma loads_comma_in_string:
  \<open>json_loads (str ''{"a": ",}"}'') = Inr (JObject [(str ''a'', JString (str '',}''))])\<close>
  by (simp add: json_defs str_def)

lemma loads_comma_removed:
  \<open>json_loads (str ''{"a": "}"}'') = Inr (JObject [(str ''a'', JString (str ''}''))])\<close>
  by (simp add: json_defs str_def)

lemma repair_comma_in_string:
  \<open>repair_json (str ''{"a": ",}"}'') 5 =
     \<lparr>repaired = str ''{"a": "}"}'', repairs_applied = [''trailing_comma_removal''],
       is_truncated = False\<rparr>\<close>
  by (simp add: repair_defs str_def repair_loop_numeral)

text \<open>
  C10. The removal of trailing commas is not string-aware: whatever text precedes it,
  a comma followed by whitespace and a closing brace or bracket is deleted, also inside
  a string literal. The text \<open>{"a": ",}"}\<close> is strictly valid JSON; its repair
  is \<open>{"a": "}"}\<close>, which differs from it and decodes to a different value.
\<close>

theorem repair_not_string_aware:
  \<open>((\<forall>x \<in> set ws. isspace x) \<and> (c = RBRACE \<or> c = RBRACKET) \<longrightarrow>
      sub_trailing_commas (pre @ COMMA # ws @ c # rest)
        = sub_trailing_commas pre @ ws @ c # sub_trailing_commas rest)
   \<and> json_loads (str ''{"a": ",}"}'') = Inr (JObject [(str ''a'', JString (str '',}''))])
   \<and> repaired (repair_json (str ''{"a": ",}"}'') 5) = str ''{"a": "}"}''
   \<and> repaired (repair_json (str ''{"a": ",}"}'') 5) \<noteq> str ''{"a": ",}"}''
   \<and> json_loads (repaired (repair_json (str ''{"a": ",}"}'') 5))
       = Inr (JObject [(str ''a'', JString (str ''}''))])
   \<and> json_loads (repaired (repair_json (str ''{"a": ",}"}'') 5))
       \<noteq> json_loads (str ''{"a": ",}"}'')\<close>
proof -
  have g: "(\<forall>x \<in> set ws. isspace x) \<and> (c = RBRACE \<or> c = RBRACKET) \<longrightarrow>
      sub_trailing_commas (pre @ COMMA # ws @ c # rest)
        = sub_trailing_commas pre @ ws @ c # sub_trailing_commas rest"
    using sub_trailing_commas_at_comma [of ws c rest]
    by (simp add: sub_trailing_commas_append)
  have d: \<open>str ''{"a": "}"}'' \<noteq> str ''{"a": ",}"}''\<close> \<open>str ''}'' \<noteq> str '',}''\<close>
    by (simp_all add: str_def)
  show ?thesis
    using g d by (simp add: repair_comma_in_string loads_comma_in_string loads_comma_removed)
qed

text \<open>
  The theorem of C10 with the prefix \<open>{"a": "\<close>, no whitespace, the closing brace
  and the rest \<open>"}\<close>: the comma inside the string literal is deleted.
\<close>

theorem repair_not_string_aware_witness:
  \<open>sub_trailing_commas (str ''{"a": ",}"}'') = str ''{"a": "}"}''
   \<and> remove_trailing_commas (str ''{"a": ",}"}'')
       = (str ''{"a": "}"}'', [''trailing_comma_removal''])\<close>
proof -
  have 1: \<open>str ''{"a": ",}"}'' = str ''{"a": "'' @ COMMA # [] @ RBRACE # [DQUOTE, RBRACE]\<close>
    by (simp add: str_def)
  have 2: \<open>sub_trailing_commas (str ''{"a": "'') = str ''{"a": "''\<close>
    \<open>sub_trailing_commas [DQUOTE, RBRACE] = [DQUOTE, RBRACE]\<close>
    by (simp_all add: str_def)
  have 3: \<open>str ''{"a": "'' @ [] @ RBRACE # [DQUOTE, RBRACE] = str ''{"a": "}"}''\<close>
    by (simp add: str_def)
  from repair_not_string_aware [of "[]" RBRACE \<open>str ''{"a": "''\<close> "[DQUOTE, RBRACE]"]
  have \<open>sub_trailing_commas (str ''{"a": "'' @ COMMA # [] @ RBRACE # [DQUOTE, RBRACE])
        = sub_trailing_commas (str ''{"a": "'') @ [] @ RBRACE # sub_trailing_commas [DQUOTE, RBRACE]\<close>
    by simp
  with 1 2 3 have s: \<open>sub_trailing_commas (str ''{"a": ",}"}'') = str ''{"a": "}"}''\<close>
    by simp
  have d: \<open>str ''{"a": "}"}'' \<noteq> str ''{"a": ",}"}''\<close> by (simp add: str_def)
  from s d show ?thesis by (simp add: remove_trailing_commas_def)
qed

end
